theory Spec2Isabelle
  imports Complex_Main
begin

section \<open>Conventions of the embedding\<close>

text \<open>
  The notebook \<^verbatim>\<open>llama-scratch.ipynb\<close> is embedded function by function, under the names
  of the source (a method \<^verbatim>\<open>C.m\<close> is \<open>C_m\<close>; the attributes of a module that would clash
  with a field of \<^verbatim>\<open>ModelArgs\<close> carry the module's initials).

  \<^item> A tensor is a nested list whose nesting depth is the tensor's rank; the outermost
    list is dimension 0. A tensor of shape \<open>(B, S, H, D)\<close> is a
    \<open>real list list list list\<close>. The tensors of the program are rectangular.
  \<^item> Tensor elements are \<open>real\<close>: the arithmetic of the embedding is exact, where the
    program computes in \<^verbatim>\<open>bfloat16\<close>, \<^verbatim>\<open>float16\<close> or \<^verbatim>\<open>float32\<close>. A statement that two
    computed values are equal is a statement about the exact computation.
  \<^item> Python's \<^verbatim>\<open>int\<close> is \<open>int\<close>; a position or a length that is used as an index is
    \<open>nat\<close>.
  \<^item> A raise is a value \<open>Inl e\<close> of the result type \<open>error + 'a\<close>: the asserts of the
    source, Python's own exceptions, and the shape errors of torch that depend on the
    arguments of a call. The weights of a module have the shapes its constructor gives
    them.
  \<^item> Mutation (the key/value caches, the token grid) is explicit state passing: a
    function returns the updated object next to its result.
  \<^item> What the host supplies at random (initial weights, the draws of
    \<^verbatim>\<open>torch.multinomial\<close>) is a parameter.
\<close>

datatype error =
    AssertionError string
  | ZeroDivisionError
  | ValueError
  | IndexError
  | RuntimeError

type_synonym vec = "real list"
type_synonym matrix = "real list list"

definition err_bind :: "error + 'a \<Rightarrow> ('a \<Rightarrow> error + 'b) \<Rightarrow> error + 'b" where
  "err_bind m f = (case m of Inl e \<Rightarrow> Inl e | Inr v \<Rightarrow> f v)"

text \<open>An operation on every row of a tensor raises if it raises on one of them.\<close>

fun mapM :: "('a \<Rightarrow> error + 'b) \<Rightarrow> 'a list \<Rightarrow> error + 'b list" where
  "mapM f [] = Inr []"
| "mapM f (x # xs) =
     (case f x of Inl e \<Rightarrow> Inl e
      | Inr y \<Rightarrow> (case mapM f xs of Inl e \<Rightarrow> Inl e | Inr ys \<Rightarrow> Inr (y # ys)))"

text \<open>\<^verbatim>\<open>x.shape[1]\<close> of a tensor of rank at least 2 with a non-empty first axis.\<close>

definition shape1 :: "'a list list \<Rightarrow> nat" where
  "shape1 x = (case x of [] \<Rightarrow> 0 | r # _ \<Rightarrow> length r)"

definition py_floordiv :: "int \<Rightarrow> int \<Rightarrow> error + int" where
  "py_floordiv a b = (if b = 0 then Inl ZeroDivisionError else Inr (a div b))"

text \<open>\<^verbatim>\<open>int(r)\<close> of a float truncates towards zero.\<close>

definition py_int :: "real \<Rightarrow> int" where
  "py_int r = (if 0 \<le> r then \<lfloor>r\<rfloor> else \<lceil>r\<rceil>)"

section \<open>\<^verbatim>\<open>ModelArgs\<close>\<close>

text \<open>The field \<^verbatim>\<open>device\<close> selects where tensors live and has no effect on values.\<close>

record ModelArgs =
  dim :: int
  n_layers :: int
  n_heads :: int
  n_kv_heads :: "int option"
  vocab_size :: int
  multiple_of :: int
  ffn_dim_multiplier :: "real option"
  norm_eps :: real
  max_batch_size :: int
  max_seq_len :: int

section \<open>Rotary position encoding\<close>

text \<open>
  \<^verbatim>\<open>
  def theta_pos_freq(head_dim, seq_len, device, theta=10000.0):
      theta_numerator = torch.arange(0, head_dim, 2).float()
      theta = 1.0 / (theta ** (theta_numerator / head_dim)).to(device)
      m = torch.arange(seq_len, device=device)
      freqs = torch.outer(m, theta).float()
      freqs_complex = torch.polar(torch.ones_like(freqs), freqs)
      return freqs_complex
  \<close>
  \<^verbatim>\<open>torch.polar(abs, angle)\<close> is \<open>abs * (cos angle + i sin angle)\<close>.
\<close>

definition polar :: "real \<Rightarrow> real \<Rightarrow> complex" where
  "polar r a = Complex (r * cos a) (r * sin a)"

definition theta_pos_freq :: "nat \<Rightarrow> nat \<Rightarrow> real \<Rightarrow> complex list list" where
  "theta_pos_freq head_dim seq_len theta =
     (let theta_numerator = map (\<lambda>i. real (2 * i)) [0..<(head_dim + 1) div 2];
          thetas = map (\<lambda>t. 1 / (theta powr (t / real head_dim))) theta_numerator;
          m = [0..<seq_len];
          freqs = map (\<lambda>mi. map (\<lambda>th. real mi * th) thetas) m
      in map (map (polar 1)) freqs)"

text \<open>
  \<^verbatim>\<open>
  def rotary_embeddings(x, freqs_complex, device):
      x_complex = torch.view_as_complex(x.float().reshape(*x.shape[:-1], -1, 2))
      freqs_complex = freqs_complex.unsqueeze(0).unsqueeze(2)
      x_rotated = x_complex * freqs_complex
      x_out = torch.view_as_real(x_rotated)
      x_out = x_out.reshape(*x.shape)
      return x_out.type_as(x).to(device)
  \<close>
  \<open>x\<close> has shape \<open>(B, S, H, D)\<close>, \<open>freqs_complex\<close> has shape \<open>(F, D')\<close>. The reshape
  into pairs raises for odd \<open>D\<close>. The product broadcasts \<open>(B, S, H, D/2)\<close> against
  \<open>(1, F, 1, D')\<close>: along an axis the sizes are equal or the table's is 1; every other
  case raises, in the product or in the final reshape to the shape of \<open>x\<close>.
\<close>

fun view_as_complex :: "real list \<Rightarrow> error + complex list" where
  "view_as_complex [] = Inr []"
| "view_as_complex [a] = Inl RuntimeError"
| "view_as_complex (a # b # xs) =
     (case view_as_complex xs of Inl e \<Rightarrow> Inl e | Inr zs \<Rightarrow> Inr (Complex a b # zs))"

definition view_as_real :: "complex list \<Rightarrow> real list" where
  "view_as_real zs = concat (map (\<lambda>z. [Re z, Im z]) zs)"

definition broadcast_to :: "nat \<Rightarrow> 'a list \<Rightarrow> error + 'a list" where
  "broadcast_to n ys =
     (if length ys = n then Inr ys
      else if length ys = 1 then Inr (replicate n (hd ys))
      else Inl RuntimeError)"

definition rotate :: "vec \<Rightarrow> complex list \<Rightarrow> error + vec" where
  "rotate v fr =
     err_bind (view_as_complex v) (\<lambda>x_complex.
     err_bind (broadcast_to (length x_complex) fr) (\<lambda>fr.
       Inr (view_as_real (map2 (*) x_complex fr))))"

definition rotary_embeddings ::
  "real list list list list \<Rightarrow> complex list list \<Rightarrow> error + real list list list list" where
  "rotary_embeddings x freqs_complex =
     mapM (\<lambda>xb. err_bind (broadcast_to (length xb) freqs_complex) (\<lambda>fs.
             mapM (\<lambda>(heads, fr). mapM (\<lambda>v. rotate v fr) heads) (zip xb fs))) x"

section \<open>\<^verbatim>\<open>repeat_kv\<close>\<close>

text \<open>
  \<^verbatim>\<open>
  def repeat_kv(x, n_rep):
      batch_size, seq_len, n_kv_heads, head_dim = x.shape
      if n_rep == 1:
          return x
      else:
          return (x[:, :, :, None, :]
                  .expand(batch_size, seq_len, n_kv_heads, n_rep, head_dim)
                  .reshape(batch_size, seq_len, n_kv_heads * n_rep, head_dim))
  \<close>
  Inserting an axis after the head axis, expanding it to \<open>n_rep\<close> and merging it with
  the head axis puts \<open>n_rep\<close> copies of each head next to each other. The head vector
  (the last axis) is never looked into, so its type is a parameter.
\<close>

definition repeat_kv :: "'a list list list list \<Rightarrow> nat \<Rightarrow> 'a list list list list" where
  "repeat_kv x n_rep =
     (if n_rep = 1 then x
      else map (map (\<lambda>heads. concat (map (replicate n_rep) heads))) x)"

section \<open>\<^verbatim>\<open>RMSNorm\<close>, \<^verbatim>\<open>nn.Linear\<close>, \<^verbatim>\<open>FeedForward\<close>\<close>

record RMSNorm =
  eps :: real
  weight :: vec

definition mean :: "vec \<Rightarrow> real" where
  "mean xs = sum_list xs / real (length xs)"

definition RMSNorm_norm :: "RMSNorm \<Rightarrow> vec \<Rightarrow> vec" where
  "RMSNorm_norm self x = map (\<lambda>v. v * (1 / sqrt (mean (map (\<lambda>v. v ^ 2) x) + eps self))) x"

definition RMSNorm_forward :: "RMSNorm \<Rightarrow> vec \<Rightarrow> vec" where
  "RMSNorm_forward self x = map2 (*) (weight self) (RMSNorm_norm self x)"

definition dot :: "vec \<Rightarrow> vec \<Rightarrow> real" where
  "dot xs ys = sum_list (map2 (*) xs ys)"

text \<open>\<^verbatim>\<open>nn.Linear(in_features, out_features, bias=False)\<close>: the weight has shape
  \<open>(out_features, in_features)\<close> and is applied to the last axis.\<close>

definition Linear :: "matrix \<Rightarrow> vec \<Rightarrow> vec" where
  "Linear W x = map (\<lambda>row. dot row x) W"

record FeedForward =
  w1 :: matrix
  w2 :: matrix
  w3 :: matrix

definition silu :: "real \<Rightarrow> real" where
  "silu x = x * (1 / (1 + exp (- x)))"

definition FeedForward_forward :: "FeedForward \<Rightarrow> vec \<Rightarrow> vec" where
  "FeedForward_forward self x =
     (let swish = map silu (Linear (w1 self) x);
          x_V = Linear (w3 self) x;
          x = map2 (*) swish x_V
      in Linear (w2 self) x)"

section \<open>\<^verbatim>\<open>SelfAttention\<close>\<close>

record SelfAttention =
  sa_n_kv_heads :: int
  sa_n_heads_q :: int
  sa_n_rep :: int
  sa_head_dim :: int
  wq :: matrix
  wk :: matrix
  wv :: matrix
  wo :: matrix
  cache_k :: "real list list list list"
  cache_v :: "real list list list list"

text \<open>\<^verbatim>\<open>v.view(..., n, head_dim)\<close> on the last axis.\<close>

definition view_heads :: "nat \<Rightarrow> nat \<Rightarrow> vec \<Rightarrow> vec list" where
  "view_heads n head_dim v = map (\<lambda>h. take head_dim (drop (h * head_dim) v)) [0..<n]"

text \<open>
  \<^verbatim>\<open>cache[:batch_size, start_pos : start_pos + seq_len] = xs\<close>, where \<open>xs\<close> has shape
  \<open>(batch_size, seq_len, H, D)\<close>. Python cuts the slice off at the end of the cache,
  and the assignment broadcasts \<open>xs\<close> to the shape of the slice: it raises when the
  batch does not fit, or when the positions do not fit and \<open>seq_len\<close> is not 1; a
  single position that lies beyond the end of the cache is broadcast to an empty slice
  and nothing is written.
\<close>

definition cache_write :: "'a list list \<Rightarrow> nat \<Rightarrow> 'a list list \<Rightarrow> error + 'a list list" where
  "cache_write cache start_pos xs =
     (if length xs \<le> length cache
         \<and> list_all (\<lambda>(row, new). start_pos + length new \<le> length row \<or> length new = 1)
              (zip cache xs)
      then Inr (map2 (\<lambda>row new. take start_pos row @ take (length row - start_pos) new
                                  @ drop (start_pos + length new) row) cache xs
                @ drop (length xs) cache)
      else Inl RuntimeError)"

definition softmax :: "vec \<Rightarrow> vec" where
  "softmax xs = map (\<lambda>x. exp x / sum_list (map exp xs)) xs"

text \<open>
  One query vector of one head against the keys and values of that head at the \<open>T\<close>
  cached positions: \<^verbatim>\<open>softmax(q @ keys.T / sqrt(head_dim)) @ values\<close>.
\<close>

definition attend :: "nat \<Rightarrow> vec \<Rightarrow> vec list \<Rightarrow> vec list \<Rightarrow> vec" where
  "attend head_dim q keys values =
     (let scores = map (\<lambda>k. dot q k / sqrt (real head_dim)) keys;
          scores = softmax scores
      in map (dot scores) (transpose values))"

text \<open>
  The attention of one batch row: \<open>xq\<close> has shape \<open>(S, H, D)\<close>, \<open>keys\<close> and \<open>values\<close>
  have shape \<open>(T, H, D)\<close>; the result has shape \<open>(S, H * D)\<close>. The three
  \<^verbatim>\<open>transpose(1, 2)\<close> of the source, the two \<^verbatim>\<open>matmul\<close> over the head axis and the
  final \<^verbatim>\<open>transpose(1, 2).contiguous().view(batch_size, seq_len, -1)\<close> are indexing by
  position and head. There is no mask: every query of the call sees all \<open>T\<close> positions.
\<close>

definition attention_row :: "nat \<Rightarrow> nat \<Rightarrow> vec list list \<Rightarrow> vec list list \<Rightarrow> vec list list \<Rightarrow> vec list" where
  "attention_row n_heads_q head_dim xq keys values =
     map (\<lambda>q. concat (map (\<lambda>h. attend head_dim (q ! h) (map (\<lambda>k. k ! h) keys)
                                     (map (\<lambda>v. v ! h) values)) [0..<n_heads_q])) xq"

text \<open>
  \<^verbatim>\<open>
  def forward(self, x, start_pos, freqs_complex):
      batch_size, seq_len, _ = x.shape
      xq = self.wq(x); xk = self.wk(x); xv = self.wv(x)
      xq = xq.view(batch_size, seq_len, self.n_heads_q, self.head_dim)
      xk = xk.view(batch_size, seq_len, self.n_kv_heads, self.head_dim)
      xv = xv.view(batch_size, seq_len, self.n_kv_heads, self.head_dim)
      xq = rotary_embeddings(xq, freqs_complex, device=x.device)
      xk = rotary_embeddings(xk, freqs_complex, device=x.device)
      self.cache_k[:batch_size, start_pos : start_pos + seq_len] = xk
      self.cache_v[:batch_size, start_pos : start_pos + seq_len] = xv
      keys = self.cache_k[:batch_size, : start_pos + seq_len]
      values = self.cache_v[:batch_size, : start_pos + seq_len]
      keys = repeat_kv(keys, self.n_rep)
      values = repeat_kv(values, self.n_rep)
      xq = xq.transpose(1, 2); keys = keys.transpose(1, 2); values = values.transpose(1, 2)
      scores = torch.matmul(xq, keys.transpose(2, 3)) / math.sqrt(self.head_dim)
      scores = F.softmax(scores.float(), dim=-1).type_as(xq)
      output = torch.matmul(scores, values)
      output = (output.transpose(1, 2).contiguous().view(batch_size, seq_len, -1))
      return self.wo(output)
  \<close>
  The first \<^verbatim>\<open>matmul\<close> raises when the number of expanded key heads,
  \<open>n_kv_heads * n_rep\<close>, is not the number of query heads.
\<close>

definition SelfAttention_forward ::
  "SelfAttention \<Rightarrow> real list list list \<Rightarrow> nat \<Rightarrow> complex list list
     \<Rightarrow> error + (real list list list \<times> SelfAttention)" where
  "SelfAttention_forward self x start_pos freqs_complex =
     (let batch_size = length x;
          seq_len = shape1 x;
          n_heads_q = nat (sa_n_heads_q self);
          n_kv_heads = nat (sa_n_kv_heads self);
          head_dim = nat (sa_head_dim self);
          xq = map (map (Linear (wq self))) x;
          xk = map (map (Linear (wk self))) x;
          xv = map (map (Linear (wv self))) x;
          xq = map (map (view_heads n_heads_q head_dim)) xq;
          xk = map (map (view_heads n_kv_heads head_dim)) xk;
          xv = map (map (view_heads n_kv_heads head_dim)) xv
      in err_bind (rotary_embeddings xq freqs_complex) (\<lambda>xq.
         err_bind (rotary_embeddings xk freqs_complex) (\<lambda>xk.
         err_bind (cache_write (cache_k self) start_pos xk) (\<lambda>cache_k'.
         err_bind (cache_write (cache_v self) start_pos xv) (\<lambda>cache_v'.
           let keys = map (take (start_pos + seq_len)) (take batch_size cache_k');
               values = map (take (start_pos + seq_len)) (take batch_size cache_v');
               keys = repeat_kv keys (nat (sa_n_rep self));
               values = repeat_kv values (nat (sa_n_rep self))
           in if sa_n_kv_heads self * sa_n_rep self \<noteq> sa_n_heads_q self then Inl RuntimeError
              else Inr (map (\<lambda>(q, k, v). map (Linear (wo self))
                                            (attention_row n_heads_q head_dim q k v))
                          (zip xq (zip keys values)),
                        self\<lparr>cache_k := cache_k', cache_v := cache_v'\<rparr>))))))"

section \<open>\<^verbatim>\<open>EncoderBlock\<close> and \<^verbatim>\<open>Transformer\<close>\<close>

text \<open>The attributes \<^verbatim>\<open>n_heads\<close>, \<^verbatim>\<open>dim\<close> and \<^verbatim>\<open>head_dim\<close> of an \<^verbatim>\<open>EncoderBlock\<close> are
  written by its constructor and never read.\<close>

record EncoderBlock =
  attention :: SelfAttention
  feed_forward :: FeedForward
  attention_norm :: RMSNorm
  ffn_norm :: RMSNorm

definition tensor_add :: "real list list list \<Rightarrow> real list list list \<Rightarrow> real list list list" where
  "tensor_add x y = map2 (map2 (map2 (+))) x y"

definition EncoderBlock_forward ::
  "EncoderBlock \<Rightarrow> real list list list \<Rightarrow> nat \<Rightarrow> complex list list
     \<Rightarrow> error + (real list list list \<times> EncoderBlock)" where
  "EncoderBlock_forward self x start_pos freqs_complex =
     err_bind (SelfAttention_forward (attention self)
                 (map (map (RMSNorm_forward (attention_norm self))) x) start_pos freqs_complex)
       (\<lambda>(a, attention').
          let h = tensor_add x a;
              out = tensor_add h (map (map (\<lambda>v. FeedForward_forward (feed_forward self)
                                                  (RMSNorm_forward (ffn_norm self) v))) h)
          in Inr (out, self\<lparr>attention := attention'\<rparr>))"

record Transformer =
  args :: ModelArgs
  tf_vocab_size :: int
  tf_n_layers :: int
  tok_embeddings :: matrix
  layers :: "EncoderBlock list"
  final_norm :: RMSNorm
  output_w :: matrix
  freqs_complex :: "complex list list"

text \<open>\<^verbatim>\<open>nn.Embedding\<close>: the row of the table at the token id; an id outside the table
  raises.\<close>

definition Embedding :: "matrix \<Rightarrow> int \<Rightarrow> error + vec" where
  "Embedding W t = (if 0 \<le> t \<and> t < int (length W) then Inr (W ! nat t) else Inl IndexError)"

text \<open>\<^verbatim>\<open>for layer in self.layers: h = layer(h, start_pos, freqs_complex)\<close>\<close>

fun layers_forward ::
  "EncoderBlock list \<Rightarrow> real list list list \<Rightarrow> nat \<Rightarrow> complex list list
     \<Rightarrow> error + (real list list list \<times> EncoderBlock list)" where
  "layers_forward [] h start_pos fc = Inr (h, [])"
| "layers_forward (layer # rest) h start_pos fc =
     (case EncoderBlock_forward layer h start_pos fc of
        Inl e \<Rightarrow> Inl e
      | Inr (h', layer') \<Rightarrow>
          (case layers_forward rest h' start_pos fc of
             Inl e \<Rightarrow> Inl e
           | Inr (h'', rest') \<Rightarrow> Inr (h'', layer' # rest')))"

text \<open>
  \<^verbatim>\<open>
  def forward(self, tokens, start_pos):
      batch_size, seq_len = tokens.shape
      assert seq_len == 1, "Only one token at a time can be processed"
      h = self.tok_embeddings(tokens)
      freqs_complex = self.freqs_complex[start_pos:start_pos + seq_len]
      for layer in self.layers:
          h = layer(h, start_pos, freqs_complex)
      h = self.norm(h)
      output = self.output(h).float()
      return output
  \<close>
\<close>

definition Transformer_forward ::
  "Transformer \<Rightarrow> int list list \<Rightarrow> nat \<Rightarrow> error + (real list list list \<times> Transformer)" where
  "Transformer_forward self tokens start_pos =
     (let batch_size = length tokens;
          seq_len = shape1 tokens
      in if seq_len \<noteq> 1 then Inl (AssertionError ''Only one token at a time can be processed'')
         else
           err_bind (mapM (mapM (Embedding (tok_embeddings self))) tokens) (\<lambda>h.
             let fc = take seq_len (drop start_pos (freqs_complex self)) in
             err_bind (layers_forward (layers self) h start_pos fc) (\<lambda>(h, layers').
               let h = map (map (RMSNorm_forward (final_norm self))) h;
                   output = map (map (Linear (output_w self))) h
               in Inr (output, self\<lparr>layers := layers'\<rparr>))))"

section \<open>Construction\<close>

text \<open>
  \<^verbatim>\<open>nn.Linear\<close> and \<^verbatim>\<open>nn.Embedding\<close> fill their weight at random; \<open>rnd k i j\<close> is the
  entry \<open>(i, j)\<close> of the \<open>k\<close>-th weight of the model. Allocating a tensor with a negative
  size raises.
\<close>

definition new_weight :: "(nat \<Rightarrow> nat \<Rightarrow> nat \<Rightarrow> real) \<Rightarrow> nat \<Rightarrow> int \<Rightarrow> int \<Rightarrow> error + matrix" where
  "new_weight rnd k rows cols =
     (if rows < 0 \<or> cols < 0 then Inl RuntimeError
      else Inr (map (\<lambda>i. map (\<lambda>j. rnd k i j) [0..<nat cols]) [0..<nat rows]))"

definition zeros :: "int \<Rightarrow> int \<Rightarrow> int \<Rightarrow> int \<Rightarrow> error + real list list list list" where
  "zeros a b c d =
     (if a < 0 \<or> b < 0 \<or> c < 0 \<or> d < 0 then Inl RuntimeError
      else Inr (replicate (nat a) (replicate (nat b) (replicate (nat c) (replicate (nat d) 0)))))"

text \<open>
  \<^verbatim>\<open>
  class SelfAttention(nn.Module):
      def __init__(self, args):
          self.n_kv_heads = args.n_heads if args.n_kv_heads is None else args.n_kv_heads
          self.n_heads_q = args.n_heads
          self.n_rep = self.n_heads_q // self.n_kv_heads
          self.head_dim = args.dim // args.n_heads
          self.wq = nn.Linear(args.dim, args.n_heads * self.head_dim, bias=False)
          self.wk = nn.Linear(args.dim, self.n_kv_heads * self.head_dim, bias=False)
          self.wv = nn.Linear(args.dim, self.n_kv_heads * self.head_dim, bias=False)
          self.wo = nn.Linear(args.n_heads * self.head_dim, args.dim, bias=False)
          self.cache_k = torch.zeros((args.max_batch_size, args.max_seq_len, self.n_kv_heads, self.head_dim))
          self.cache_v = torch.zeros((args.max_batch_size, args.max_seq_len, self.n_kv_heads, self.head_dim))
  \<close>
\<close>

definition SelfAttention_init ::
  "ModelArgs \<Rightarrow> (nat \<Rightarrow> nat \<Rightarrow> nat \<Rightarrow> real) \<Rightarrow> nat \<Rightarrow> error + SelfAttention" where
  "SelfAttention_init a rnd k =
     (let n_kv_heads' = (case n_kv_heads a of None \<Rightarrow> n_heads a | Some v \<Rightarrow> v);
          n_heads_q = n_heads a
      in err_bind (py_floordiv n_heads_q n_kv_heads') (\<lambda>n_rep.
         err_bind (py_floordiv (dim a) (n_heads a)) (\<lambda>head_dim.
         err_bind (new_weight rnd k (n_heads a * head_dim) (dim a)) (\<lambda>wq'.
         err_bind (new_weight rnd (k + 1) (n_kv_heads' * head_dim) (dim a)) (\<lambda>wk'.
         err_bind (new_weight rnd (k + 2) (n_kv_heads' * head_dim) (dim a)) (\<lambda>wv'.
         err_bind (new_weight rnd (k + 3) (dim a) (n_heads a * head_dim)) (\<lambda>wo'.
         err_bind (zeros (max_batch_size a) (max_seq_len a) n_kv_heads' head_dim) (\<lambda>ck.
         err_bind (zeros (max_batch_size a) (max_seq_len a) n_kv_heads' head_dim) (\<lambda>cv.
           Inr \<lparr>sa_n_kv_heads = n_kv_heads', sa_n_heads_q = n_heads_q, sa_n_rep = n_rep,
                sa_head_dim = head_dim, wq = wq', wk = wk', wv = wv', wo = wo',
                cache_k = ck, cache_v = cv\<rparr>)))))))))"

text \<open>
  \<^verbatim>\<open>
  class FeedForward(nn.Module):
      def __init__(self, args):
          hidden_dim = 4 * args.dim
          hidden_dim = int(2 * hidden_dim / 3)
          if args.ffn_dim_multiplier is not None:
              hidden_dim = int(args.ffn_dim_multiplier * hidden_dim)
          hidden_dim = args.multiple_of * ((hidden_dim + args.multiple_of - 1) // args.multiple_of)
          self.w1 = nn.Linear(args.dim, hidden_dim, bias=False)
          self.w2 = nn.Linear(hidden_dim, args.dim, bias=False)
          self.w3 = nn.Linear(args.dim, hidden_dim, bias=False)
  \<close>
\<close>

definition FeedForward_init ::
  "ModelArgs \<Rightarrow> (nat \<Rightarrow> nat \<Rightarrow> nat \<Rightarrow> real) \<Rightarrow> nat \<Rightarrow> error + FeedForward" where
  "FeedForward_init a rnd k =
     (let hidden_dim = 4 * dim a;
          hidden_dim = py_int (real_of_int (2 * hidden_dim) / 3);
          hidden_dim = (case ffn_dim_multiplier a of None \<Rightarrow> hidden_dim
                        | Some m \<Rightarrow> py_int (m * real_of_int hidden_dim))
      in err_bind (py_floordiv (hidden_dim + multiple_of a - 1) (multiple_of a)) (\<lambda>q.
         let hidden_dim = multiple_of a * q in
         err_bind (new_weight rnd k hidden_dim (dim a)) (\<lambda>w1'.
         err_bind (new_weight rnd (k + 1) (dim a) hidden_dim) (\<lambda>w2'.
         err_bind (new_weight rnd (k + 2) hidden_dim (dim a)) (\<lambda>w3'.
           Inr \<lparr>w1 = w1', w2 = w2', w3 = w3'\<rparr>)))))"

definition RMSNorm_init :: "int \<Rightarrow> real \<Rightarrow> error + RMSNorm" where
  "RMSNorm_init d e =
     (if d < 0 then Inl RuntimeError else Inr \<lparr>eps = e, weight = replicate (nat d) 1\<rparr>)"

text \<open>
  \<^verbatim>\<open>
  class EncoderBlock(nn.Module):
      def __init__(self, args):
          self.n_heads = args.n_heads
          self.dim = args.dim
          self.head_dim = args.dim // args.n_heads
          self.attention = SelfAttention(args)
          self.feed_forward = FeedForward(args)
          self.attention_norm = RMSNorm(args.dim, eps=args.norm_eps)
          self.ffn_norm = RMSNorm(args.dim, eps=args.norm_eps)
  \<close>
\<close>

definition EncoderBlock_init ::
  "ModelArgs \<Rightarrow> (nat \<Rightarrow> nat \<Rightarrow> nat \<Rightarrow> real) \<Rightarrow> nat \<Rightarrow> error + EncoderBlock" where
  "EncoderBlock_init a rnd k =
     err_bind (py_floordiv (dim a) (n_heads a)) (\<lambda>head_dim.
     err_bind (SelfAttention_init a rnd k) (\<lambda>att.
     err_bind (FeedForward_init a rnd (k + 4)) (\<lambda>ff.
     err_bind (RMSNorm_init (dim a) (norm_eps a)) (\<lambda>an.
     err_bind (RMSNorm_init (dim a) (norm_eps a)) (\<lambda>fn.
       Inr \<lparr>attention = att, feed_forward = ff, attention_norm = an, ffn_norm = fn\<rparr>)))))"

text \<open>
  \<^verbatim>\<open>
  class Transformer(nn.Module):
      def __init__(self, args):
          assert args.vocab_size != -1, "Vocab size must be set"
          self.args = args
          self.vocab_size = args.vocab_size
          self.n_layers = args.n_layers
          self.tok_embeddings = nn.Embedding(self.vocab_size, args.dim)
          self.layers = nn.ModuleList()
          for layer_id in range(args.n_layers):
              self.layers.append(EncoderBlock(args))
          self.norm = RMSNorm(args.dim, eps=args.norm_eps)
          self.output = nn.Linear(args.dim, self.vocab_size, bias=False)
          self.freqs_complex = theta_pos_freq(self.args.dim // self.args.n_heads,
                                              self.args.max_seq_len * 2, device=self.args.device)
  \<close>
  The two \<^verbatim>\<open>torch.arange\<close> of \<^verbatim>\<open>theta_pos_freq\<close> raise for a negative bound.
\<close>

definition Transformer_init ::
  "ModelArgs \<Rightarrow> (nat \<Rightarrow> nat \<Rightarrow> nat \<Rightarrow> real) \<Rightarrow> error + Transformer" where
  "Transformer_init a rnd =
     (if vocab_size a = - 1 then Inl (AssertionError ''Vocab size must be set'')
      else
        err_bind (new_weight rnd 0 (vocab_size a) (dim a)) (\<lambda>emb.
        err_bind (mapM (\<lambda>layer_id. EncoderBlock_init a rnd (2 + 7 * layer_id))
                    [0..<nat (n_layers a)]) (\<lambda>ls.
        err_bind (RMSNorm_init (dim a) (norm_eps a)) (\<lambda>nrm.
        err_bind (new_weight rnd 1 (vocab_size a) (dim a)) (\<lambda>outw.
        err_bind (py_floordiv (dim a) (n_heads a)) (\<lambda>head_dim.
          if head_dim < 0 \<or> max_seq_len a * 2 < 0 then Inl RuntimeError
          else Inr \<lparr>args = a, tf_vocab_size = vocab_size a, tf_n_layers = n_layers a,
                    tok_embeddings = emb, layers = ls, final_norm = nrm, output_w = outw,
                    freqs_complex = theta_pos_freq (nat head_dim) (nat (max_seq_len a * 2))
                                      10000\<rparr>))))))"

section \<open>Sampling\<close>

text \<open>\<^verbatim>\<open>torch.argmax\<close>: the index of the first maximal value; an empty axis raises.\<close>

fun argmax_from :: "nat \<Rightarrow> real \<Rightarrow> nat \<Rightarrow> real list \<Rightarrow> nat" where
  "argmax_from best bv i [] = best"
| "argmax_from best bv i (x # xs) =
     (if bv < x then argmax_from i x (Suc i) xs else argmax_from best bv (Suc i) xs)"

definition argmax :: "real list \<Rightarrow> error + nat" where
  "argmax xs = (case xs of [] \<Rightarrow> Inl IndexError | x # rest \<Rightarrow> Inr (argmax_from 0 x 1 rest))"

text \<open>\<^verbatim>\<open>torch.sort(probs, dim=-1, descending=True)\<close>: the sorted values and, for each, the
  index it had in \<open>probs\<close>.\<close>

definition sort_descending :: "real list \<Rightarrow> real list \<times> nat list" where
  "sort_descending probs =
     (let ps = sort_key (\<lambda>(p, i). - p) (zip probs [0..<length probs])
      in (map fst ps, map snd ps))"

fun cumsum_from :: "real \<Rightarrow> real list \<Rightarrow> real list" where
  "cumsum_from acc [] = []"
| "cumsum_from acc (x # xs) = (acc + x) # cumsum_from (acc + x) xs"

definition cumsum :: "real list \<Rightarrow> real list" where
  "cumsum xs = cumsum_from 0 xs"

text \<open>
  The part of \<^verbatim>\<open>_sample_top_p\<close> between the sort and the draw, on one row of the batch:
  \<^verbatim>\<open>
      probs_sum = torch.cumsum(probs_sort, dim=-1)
      mask = probs_sum - probs_sort > p
      probs_sort[mask] = 0.0
      probs_sort.div_(probs_sort.sum(dim=-1, keepdim=True))
  \<close>
\<close>

definition top_p_renormalize :: "real list \<Rightarrow> real \<Rightarrow> real list" where
  "top_p_renormalize probs_sort p =
     (let probs_sum = cumsum probs_sort;
          mask = map2 (\<lambda>s x. s - x > p) probs_sum probs_sort;
          probs_sort = map2 (\<lambda>m x. if m then 0 else x) mask probs_sort
      in map (\<lambda>x. x / sum_list probs_sort) probs_sort)"

text \<open>
  \<^verbatim>\<open>torch.multinomial(weights, num_samples=1)\<close> draws an index at random, with
  probability proportional to its weight; it raises when the weights are not a
  distribution (a negative, infinite or undefined weight, or the sum not positive;
  a division by a zero sum has made every weight undefined). The embedding keeps of the
  draw that the index has a positive weight; which of these indices it is, is decided by
  the number \<open>u\<close> that the caller supplies.
\<close>

definition support :: "real list \<Rightarrow> nat list" where
  "support ws = filter (\<lambda>j. 0 < ws ! j) [0..<length ws]"

definition multinomial :: "nat \<Rightarrow> real list \<Rightarrow> error + nat" where
  "multinomial u ws =
     (if list_ex (\<lambda>w. w < 0) ws \<or> sum_list ws \<le> 0 then Inl RuntimeError
      else Inr (support ws ! (u mod length (support ws))))"

text \<open>
  \<^verbatim>\<open>
  def _sample_top_p(self, probs, p):
      probs_sort, probs_idx = torch.sort(probs, dim=-1, descending=True)
      probs_sum = torch.cumsum(probs_sort, dim=-1)
      mask = probs_sum - probs_sort > p
      probs_sort[mask] = 0.0
      probs_sort.div_(probs_sort.sum(dim=-1, keepdim=True))
      next_token = torch.multinomial(probs_sort, num_samples=1)
      next_token = torch.gather(probs_idx, -1, next_token)
      return next_token
  \<close>
  on one row of the batch. \<open>top_p_candidates\<close> lists the tokens that the draw can return:
  the entries of \<open>probs_idx\<close> at the positions whose weight is positive after the
  truncation.
\<close>

definition top_p_candidates :: "real list \<Rightarrow> real \<Rightarrow> nat list" where
  "top_p_candidates probs p =
     (let (probs_sort, probs_idx) = sort_descending probs;
          probs_sort = top_p_renormalize probs_sort p
      in map (\<lambda>j. probs_idx ! j) (support probs_sort))"

definition sample_top_p :: "real list \<Rightarrow> real \<Rightarrow> nat \<Rightarrow> error + nat" where
  "sample_top_p probs p u =
     (let (probs_sort, probs_idx) = sort_descending probs;
          probs_sort = top_p_renormalize probs_sort p
      in err_bind (multinomial u probs_sort) (\<lambda>next_token. Inr (probs_idx ! next_token)))"

section \<open>\<^verbatim>\<open>LLaMA.text_completion\<close>\<close>

text \<open>
  The tokenizer is a \<^verbatim>\<open>sentencepiece.SentencePieceProcessor\<close>; \<^verbatim>\<open>text_completion\<close> uses
  its \<^verbatim>\<open>encode\<close>, \<^verbatim>\<open>decode\<close>, \<^verbatim>\<open>pad_id()\<close> and \<^verbatim>\<open>eos_id\<close>. It calls \<^verbatim>\<open>pad_id()\<close>, and reads
  \<^verbatim>\<open>eos_id\<close> without calling it, in \<^verbatim>\<open>next_token == self.tokenizer.eos_id\<close> and in
  \<^verbatim>\<open>self.tokenizer.eos_id in current_prompt_tokens\<close>. What it compares the tokens with is
  therefore the attribute itself: an integer when the tokenizer object stores the id
  in a field of that name, a bound method when \<^verbatim>\<open>eos_id\<close> is a method of the object, as
  \<^verbatim>\<open>pad_id\<close> is. Python's \<^verbatim>\<open>==\<close> of an integer, or of a tensor of integers, with a method
  is \<^verbatim>\<open>False\<close>.
\<close>

datatype py_attr = IntAttr int | MethodAttr

record Tokenizer =
  pad_id :: int
  eos_id :: py_attr

definition py_eq :: "int \<Rightarrow> py_attr \<Rightarrow> bool" where
  "py_eq t a = (case a of IntAttr e \<Rightarrow> t = e | MethodAttr \<Rightarrow> False)"

record LLaMA =
  model :: Transformer
  tokenizer :: Tokenizer
  llama_args :: ModelArgs

text \<open>
  The variables of the decoding loop: the token grid, the flags \<^verbatim>\<open>eos_reached\<close>, the
  model with its caches, and the loop variable \<^verbatim>\<open>cur_pos\<close> (0 before the first
  iteration).
\<close>

record gen_state =
  tokens :: "int list list"
  eos_reached :: "bool list"
  gs_model :: Transformer
  gs_cur_pos :: nat

text \<open>
  The next token of every row, before the prompt mask is applied:
  \<^verbatim>\<open>
      if temperature > 0:
          probs = torch.softmax(logits[:, -1] / temperature, dim=-1)
          next_token = self._sample_top_p(probs, top_p)
      else:
          next_token = torch.argmax(logits[:, -1], dim=-1)
      next_token = next_token.reshape(-1)
  \<close>
  \<open>rng cur_pos b\<close> is the random number of the draw for row \<open>b\<close> at \<open>cur_pos\<close>.
\<close>

definition sample_next ::
  "real \<Rightarrow> real \<Rightarrow> (nat \<Rightarrow> nat \<Rightarrow> nat) \<Rightarrow> nat \<Rightarrow> real list list list \<Rightarrow> error + int list" where
  "sample_next temperature top_p rng cur_pos logits =
     err_bind
       (if 0 < temperature
        then mapM (\<lambda>(b, l). sample_top_p (softmax (map (\<lambda>x. x / temperature) l)) top_p
                               (rng cur_pos b))
               (zip [0..<length logits] (map last logits))
        else mapM argmax (map last logits))
       (\<lambda>next_token. Inr (map int next_token))"

text \<open>
  One iteration of
  \<^verbatim>\<open>
      for cur_pos in cur_iterator:
          with torch.no_grad():
              logits = self.model.forward(tokens[:, cur_pos-1:cur_pos], cur_pos)
          ...
          next_token = torch.where(prompt_tokens_mask[:, cur_pos], tokens[:, cur_pos], next_token)
          tokens[:, cur_pos] = next_token
          eos_reached |= (~prompt_tokens_mask[:, cur_pos]) & (next_token == self.tokenizer.eos_id)
          if all(eos_reached):
              break
  \<close>
  up to the test of the \<^verbatim>\<open>break\<close>.
\<close>

definition decode_step ::
  "Tokenizer \<Rightarrow> real \<Rightarrow> real \<Rightarrow> (nat \<Rightarrow> nat \<Rightarrow> nat) \<Rightarrow> bool list list \<Rightarrow> nat \<Rightarrow> gen_state
     \<Rightarrow> error + gen_state" where
  "decode_step tk temperature top_p rng prompt_tokens_mask cur_pos st =
     err_bind (Transformer_forward (gs_model st)
                 (map (\<lambda>row. take 1 (drop (cur_pos - 1) row)) (tokens st)) cur_pos)
       (\<lambda>(logits, model').
     err_bind (sample_next temperature top_p rng cur_pos logits) (\<lambda>next_token.
       let bs = [0..<length (tokens st)];
           next_token = map (\<lambda>b. if prompt_tokens_mask ! b ! cur_pos
                                   then tokens st ! b ! cur_pos else next_token ! b) bs;
           tokens' = map (\<lambda>b. (tokens st ! b)[cur_pos := next_token ! b]) bs;
           eos_reached' = map (\<lambda>b. eos_reached st ! b
                                     \<or> (\<not> prompt_tokens_mask ! b ! cur_pos
                                         \<and> py_eq (next_token ! b) (eos_id tk))) bs
       in Inr \<lparr>tokens = tokens', eos_reached = eos_reached', gs_model = model',
               gs_cur_pos = cur_pos\<rparr>))"

fun decode_loop ::
  "Tokenizer \<Rightarrow> real \<Rightarrow> real \<Rightarrow> (nat \<Rightarrow> nat \<Rightarrow> nat) \<Rightarrow> bool list list \<Rightarrow> nat list \<Rightarrow> gen_state
     \<Rightarrow> error + gen_state" where
  "decode_loop tk temperature top_p rng pmask [] st = Inr st"
| "decode_loop tk temperature top_p rng pmask (cur_pos # rest) st =
     (case decode_step tk temperature top_p rng pmask cur_pos st of
        Inl e \<Rightarrow> Inl e
      | Inr st' \<Rightarrow>
          if list_all (\<lambda>e. e) (eos_reached st') then Inr st'
          else decode_loop tk temperature top_p rng pmask rest st')"

text \<open>
  \<^verbatim>\<open>
      if self.tokenizer.eos_id in current_prompt_tokens:
          eos_idx = current_prompt_tokens.index(self.tokenizer.eos_id)
          current_prompt_tokens = current_prompt_tokens[:eos_idx]
  \<close>
\<close>

definition py_index :: "int list \<Rightarrow> py_attr \<Rightarrow> nat" where
  "py_index xs a = length (takeWhile (\<lambda>t. \<not> py_eq t a) xs)"

definition cut_eos :: "py_attr \<Rightarrow> int list \<Rightarrow> int list" where
  "cut_eos a current_prompt_tokens =
     (if list_ex (\<lambda>t. py_eq t a) current_prompt_tokens
      then take (py_index current_prompt_tokens a) current_prompt_tokens
      else current_prompt_tokens)"

text \<open>
  \<^verbatim>\<open>text_completion\<close> up to the end of the loop. \<open>prompt_tokens\<close> is the list of the encoded
  prompts (\<^verbatim>\<open>self.tokenizer.encode(prompt, out_type=int, add_bos=True, add_eos=False)\<close> for
  each prompt).
  \<^verbatim>\<open>
      if max_gen_len is None:
          max_gen_len = self.args.max_seq_len - 1
      batch_size = len(prompt_tokens)
      assert batch_size <= self.args.max_batch_size, f"batch size must be less than or equal to {self.args.max_batch_size}"
      max_prompt_len = max(len(prompt) for prompt in prompt_tokens)
      assert max_prompt_len <= self.args.max_seq_len, f"prompt length must be less than or equal to {self.args.max_seq_len}"
      total_len = min(self.args.max_seq_len, max_gen_len + max_prompt_len)
      pad_id = self.tokenizer.pad_id()
      tokens = torch.full((batch_size, total_len), pad_id, dtype=torch.long, device=device)
      for k, t in enumerate(prompt_tokens):
          tokens[k, : len(t)] = torch.tensor(t, dtype=torch.long, device=device)
      eos_reached = torch.tensor([False] * batch_size, device=device)
      prompt_tokens_mask = tokens != pad_id
      cur_iterator = tqdm(range(1, total_len), desc="Generating tokens")
  \<close>
  \<^verbatim>\<open>max\<close> of no prompts raises; \<^verbatim>\<open>torch.full\<close> raises for a negative \<open>total_len\<close>. The slice
  \<^verbatim>\<open>tokens[k, : len(t)]\<close> is cut off at the end of the row and the assignment broadcasts
  the prompt to it: a prompt longer than \<open>total_len\<close> raises when it has more than one
  token, and a prompt of one token is broadcast to the slice of \<open>total_len\<close> positions,
  which is then empty (\<open>total_len = 0\<close>, as for \<^verbatim>\<open>max_gen_len = -1\<close>), so that the row
  stays empty and the call goes on.
\<close>

definition prompt_mask :: "int \<Rightarrow> int list list \<Rightarrow> bool list list" where
  "prompt_mask pad tokens_grid = map (map (\<lambda>t. t \<noteq> pad)) tokens_grid"

definition token_grid :: "int \<Rightarrow> nat \<Rightarrow> int list list \<Rightarrow> int list list" where
  "token_grid pad total_len prompt_tokens =
     map (\<lambda>t. (if length t \<le> total_len then t else replicate total_len (hd t))
                @ replicate (total_len - length t) pad) prompt_tokens"

definition generation ::
  "LLaMA \<Rightarrow> int list list \<Rightarrow> real \<Rightarrow> real \<Rightarrow> int option \<Rightarrow> (nat \<Rightarrow> nat \<Rightarrow> nat) \<Rightarrow> error + gen_state" where
  "generation self prompt_tokens temperature top_p max_gen_len rng =
     (let max_gen_len = (case max_gen_len of None \<Rightarrow> max_seq_len (llama_args self) - 1
                         | Some g \<Rightarrow> g);
          batch_size = length prompt_tokens
      in if \<not> int batch_size \<le> max_batch_size (llama_args self)
         then Inl (AssertionError ''batch size must be less than or equal to max_batch_size'')
         else if prompt_tokens = [] then Inl ValueError
         else
           let max_prompt_len = int (Max (set (map length prompt_tokens))) in
           if \<not> max_prompt_len \<le> max_seq_len (llama_args self)
           then Inl (AssertionError ''prompt length must be less than or equal to max_seq_len'')
           else
             let total_len = min (max_seq_len (llama_args self)) (max_gen_len + max_prompt_len) in
             if total_len < 0 then Inl RuntimeError
             else if list_ex (\<lambda>t. int (length t) > total_len \<and> length t \<noteq> 1) prompt_tokens
             then Inl RuntimeError
             else
               let pad = pad_id (tokenizer self);
                   tokens0 = token_grid pad (nat total_len) prompt_tokens;
                   eos0 = replicate batch_size False;
                   prompt_tokens_mask = prompt_mask pad tokens0
               in decode_loop (tokenizer self) temperature top_p rng prompt_tokens_mask
                    [1..<nat total_len]
                    \<lparr>tokens = tokens0, eos_reached = eos0, gs_model = model self,
                     gs_cur_pos = 0\<rparr>)"

text \<open>
  The whole of \<^verbatim>\<open>text_completion\<close>: the first component is \<^verbatim>\<open>out_tokens\<close> (\<^verbatim>\<open>out_text\<close> is its
  image under the tokenizer's \<^verbatim>\<open>decode\<close>), the second is the object with the caches as
  the call leaves them.
\<close>

definition text_completion ::
  "LLaMA \<Rightarrow> int list list \<Rightarrow> real \<Rightarrow> real \<Rightarrow> int option \<Rightarrow> (nat \<Rightarrow> nat \<Rightarrow> nat)
     \<Rightarrow> error + (int list list \<times> LLaMA)" where
  "text_completion self prompt_tokens temperature top_p max_gen_len rng =
     err_bind (generation self prompt_tokens temperature top_p max_gen_len rng) (\<lambda>st.
       Inr (map (cut_eos (eos_id (tokenizer self))) (tokens st),
            self\<lparr>model := gs_model st\<rparr>))"

section \<open>Notions used in the statements\<close>

text \<open>The Euclidean norm of a vector, and the \<open>i\<close>-th pair of consecutive components.\<close>

definition l2_norm :: "vec \<Rightarrow> real" where
  "l2_norm v = sqrt (sum_list (map (\<lambda>a. a ^ 2) v))"

definition pair :: "vec \<Rightarrow> nat \<Rightarrow> vec" where
  "pair v i = take 2 (drop (2 * i) v)"

text \<open>\<open>x\<close> is a tensor of shape \<open>(B, S, H, D)\<close>.\<close>

definition shape4 :: "'a list list list list \<Rightarrow> nat \<Rightarrow> nat \<Rightarrow> nat \<Rightarrow> nat \<Rightarrow> bool" where
  "shape4 x B S H D =
     (length x = B \<and> list_all (\<lambda>xb. length xb = S
        \<and> list_all (\<lambda>hs. length hs = H \<and> list_all (\<lambda>v. length v = D) hs) xb) x)"

text \<open>The sorted probabilities after the masking of \<^verbatim>\<open>_sample_top_p\<close>, before the division.\<close>

definition truncated :: "real list \<Rightarrow> real \<Rightarrow> real list" where
  "truncated xs p =
     map2 (\<lambda>m x. if m then 0 else x) (map2 (\<lambda>s x. s - x > p) (cumsum xs) xs) xs"

text \<open>The complex view of a vector of even length.\<close>

fun pairs_of :: "real list \<Rightarrow> complex list" where
  "pairs_of (a # b # xs) = Complex a b # pairs_of xs"
| "pairs_of _ = []"

text \<open>
  The sizes of a configuration can be allocated: the vocabulary size is set and not
  negative, the head counts and the rounding granularity are positive, nothing else is
  negative. Nothing is said about divisibility.
\<close>

definition sizes_ok :: "ModelArgs \<Rightarrow> bool" where
  "sizes_ok a =
     (0 \<le> vocab_size a \<and> 0 \<le> dim a \<and> 0 < n_heads a
      \<and> (case n_kv_heads a of None \<Rightarrow> True | Some v \<Rightarrow> 0 < v)
      \<and> 0 < multiple_of a
      \<and> (case ffn_dim_multiplier a of None \<Rightarrow> True | Some m \<Rightarrow> 0 \<le> m)
      \<and> 0 \<le> max_batch_size a \<and> 0 \<le> max_seq_len a)"

text \<open>A configuration in which neither \<open>dim\<close> is a multiple of \<open>n_heads\<close> nor \<open>n_heads\<close> a
  multiple of \<open>n_kv_heads\<close>, and weights that are all zero.\<close>

definition args_indivisible :: ModelArgs where
  "args_indivisible =
     \<lparr>dim = 10, n_layers = 1, n_heads = 3, n_kv_heads = Some 2, vocab_size = 5,
      multiple_of = 4, ffn_dim_multiplier = None, norm_eps = 1 / 100000,
      max_batch_size = 1, max_seq_len = 2\<rparr>"

definition zero_weights :: "nat \<Rightarrow> nat \<Rightarrow> nat \<Rightarrow> real" where
  "zero_weights k i j = 0"

text \<open>
  A model without layers over a vocabulary of four tokens: the embedding of a token is
  its unit vector, and the output projection puts the highest logit on the successor
  of the token (1 to 3, 3 to 2, 2 to 3, 0 to 0). With it, a \<^verbatim>\<open>LLaMA\<close> object for a
  given \<^verbatim>\<open>eos_id\<close> attribute and pad id.
\<close>

definition chain_args :: ModelArgs where
  "chain_args = \<lparr>dim = 4, n_layers = 0, n_heads = 2, n_kv_heads = Some 1, vocab_size = 4,
      multiple_of = 2, ffn_dim_multiplier = None, norm_eps = 3 / 4,
      max_batch_size = 2, max_seq_len = 8\<rparr>"

definition chain_model :: Transformer where
  "chain_model = \<lparr>args = chain_args, tf_vocab_size = 4, tf_n_layers = 0,
      tok_embeddings = [[1, 0, 0, 0], [0, 1, 0, 0], [0, 0, 1, 0], [0, 0, 0, 1]],
      layers = [],
      final_norm = \<lparr>eps = 3 / 4, weight = [1, 1, 1, 1]\<rparr>,
      output_w = [[1, 0, 0, 0], [0, 0, 0, 0], [0, 0, 0, 1], [0, 1, 1, 0]],
      freqs_complex = theta_pos_freq 2 16 10000\<rparr>"

definition chain_llama :: "py_attr \<Rightarrow> int \<Rightarrow> LLaMA" where
  "chain_llama eos pad = \<lparr>model = chain_model, tokenizer = \<lparr>pad_id = pad, eos_id = eos\<rparr>,
      llama_args = chain_args\<rparr>"

text \<open>The random numbers of a run that draws nothing (temperature 0).\<close>

definition no_draws :: "nat \<Rightarrow> nat \<Rightarrow> nat" where
  "no_draws cur_pos b = 0"

text \<open>
  The rotated key and the value that the first layer computes for a token: the key
  projection of the normalized embedding, split into heads and rotated with row \<open>pos\<close> of
  the rotary table, and the value projection, split into heads.
\<close>

definition first_layer_key :: "Transformer \<Rightarrow> int \<Rightarrow> nat \<Rightarrow> error + vec list" where
  "first_layer_key m t pos =
     err_bind (Embedding (tok_embeddings m) t) (\<lambda>e.
       let layer = layers m ! 0; a = attention layer
       in mapM (\<lambda>v. rotate v (freqs_complex m ! pos))
            (view_heads (nat (sa_n_kv_heads a)) (nat (sa_head_dim a))
               (Linear (wk a) (RMSNorm_forward (attention_norm layer) e))))"

definition first_layer_value :: "Transformer \<Rightarrow> int \<Rightarrow> error + vec list" where
  "first_layer_value m t =
     err_bind (Embedding (tok_embeddings m) t) (\<lambda>e.
       let layer = layers m ! 0; a = attention layer
       in Inr (view_heads (nat (sa_n_kv_heads a)) (nat (sa_head_dim a))
                 (Linear (wv a) (RMSNorm_forward (attention_norm layer) e))))"

text \<open>
  A cache \<open>c'\<close> has the shape of \<open>c\<close> and differs from it at most at the positions in \<open>W\<close>;
  a layer, and a model, differ from another at most in their caches, and there at most
  at the positions in \<open>W\<close>.
\<close>

definition cache_frame :: "nat set \<Rightarrow> 'a list list \<Rightarrow> 'a list list \<Rightarrow> bool" where
  "cache_frame W c c' =
     (length c' = length c
      \<and> (\<forall>b < length c. length (c' ! b) = length (c ! b)
            \<and> (\<forall>j < length (c ! b). j \<notin> W \<longrightarrow> c' ! b ! j = c ! b ! j)))"

definition layer_frame :: "nat set \<Rightarrow> EncoderBlock \<Rightarrow> EncoderBlock \<Rightarrow> bool" where
  "layer_frame W l l' =
     (l' = l\<lparr>attention := (attention l)\<lparr>cache_k := cache_k (attention l'),
                                          cache_v := cache_v (attention l')\<rparr>\<rparr>
      \<and> cache_frame W (cache_k (attention l)) (cache_k (attention l'))
      \<and> cache_frame W (cache_v (attention l)) (cache_v (attention l')))"

definition model_frame :: "nat set \<Rightarrow> Transformer \<Rightarrow> Transformer \<Rightarrow> bool" where
  "model_frame W m m' =
     (m' = m\<lparr>layers := layers m'\<rparr> \<and> length (layers m') = length (layers m)
      \<and> (\<forall>l < length (layers m). layer_frame W (layers m ! l) (layers m' ! l)))"

text \<open>
  A model with one layer over a vocabulary of two tokens, with one head of dimension 2
  and caches for one sequence of three positions. The query and output projections and
  the feed-forward weights are zero, so the layer leaves the hidden vector as it is; the
  key and value projections are not zero. The output projection puts the highest logit
  on the other token.
\<close>

definition tiny_args :: ModelArgs where
  "tiny_args = \<lparr>dim = 2, n_layers = 1, n_heads = 1, n_kv_heads = None, vocab_size = 2,
      multiple_of = 1, ffn_dim_multiplier = None, norm_eps = 1 / 2,
      max_batch_size = 1, max_seq_len = 3\<rparr>"

definition tiny_attention ::
  "real list list list list \<Rightarrow> real list list list list \<Rightarrow> SelfAttention" where
  "tiny_attention ck cv = \<lparr>sa_n_kv_heads = 1, sa_n_heads_q = 1, sa_n_rep = 1, sa_head_dim = 2,
      wq = [[0, 0], [0, 0]],
      wk = [[1, 0], [0, 1]],
      wv = [[1, 2], [3, 4]],
      wo = [[0, 0], [0, 0]],
      cache_k = ck, cache_v = cv\<rparr>"

definition tiny_model ::
  "real list list list list \<Rightarrow> real list list list list \<Rightarrow> Transformer" where
  "tiny_model ck cv = \<lparr>args = tiny_args, tf_vocab_size = 2, tf_n_layers = 1,
      tok_embeddings = [[1, 0], [0, 1]],
      layers = [\<lparr>attention = tiny_attention ck cv,
                 feed_forward = \<lparr>w1 = replicate 5 [0, 0], w2 = replicate 2 (replicate 5 0),
                                  w3 = replicate 5 [0, 0]\<rparr>,
                 attention_norm = \<lparr>eps = 1 / 2, weight = [1, 1]\<rparr>,
                 ffn_norm = \<lparr>eps = 1 / 2, weight = [1, 1]\<rparr>\<rparr>],
      final_norm = \<lparr>eps = 1 / 2, weight = [1, 1]\<rparr>,
      output_w = [[0, 1], [1, 0]],
      freqs_complex = theta_pos_freq 2 6 10000\<rparr>"

definition zero_cache :: "real list list list list" where
  "zero_cache = [[[[0, 0]], [[0, 0]], [[0, 0]]]]"

definition tiny_llama :: LLaMA where
  "tiny_llama = \<lparr>model = tiny_model zero_cache zero_cache,
      tokenizer = \<lparr>pad_id = - 1, eos_id = MethodAttr\<rparr>, llama_args = tiny_args\<rparr>"

text \<open>
  The parts of \<^verbatim>\<open>SelfAttention.forward\<close> for one hidden vector \<open>v\<close> at position \<open>j\<close>: the
  query \<^verbatim>\<open>self.wq(x)\<close> and the key \<^verbatim>\<open>self.wk(x)\<close>, viewed by heads and rotated with row \<open>j\<close>
  of the rotary table, the value \<^verbatim>\<open>self.wv(x)\<close> viewed by heads, and the output
  \<^verbatim>\<open>self.wo(...)\<close> of the attention of one rotated query over the keys and values of one
  sequence (\<^verbatim>\<open>repeat_kv\<close>, scores, softmax and the weighted sum of the values).
\<close>

definition query_at :: "SelfAttention \<Rightarrow> complex list list \<Rightarrow> vec \<Rightarrow> nat \<Rightarrow> error + vec list" where
  "query_at sa table v j =
     mapM (\<lambda>h. rotate h (table ! j))
       (view_heads (nat (sa_n_heads_q sa)) (nat (sa_head_dim sa)) (Linear (wq sa) v))"

definition key_at :: "SelfAttention \<Rightarrow> complex list list \<Rightarrow> vec \<Rightarrow> nat \<Rightarrow> error + vec list" where
  "key_at sa table v j =
     mapM (\<lambda>h. rotate h (table ! j))
       (view_heads (nat (sa_n_kv_heads sa)) (nat (sa_head_dim sa)) (Linear (wk sa) v))"

definition value_at :: "SelfAttention \<Rightarrow> vec \<Rightarrow> vec list" where
  "value_at sa v =
     view_heads (nat (sa_n_kv_heads sa)) (nat (sa_head_dim sa)) (Linear (wv sa) v)"

definition attention_output ::
  "SelfAttention \<Rightarrow> vec list \<Rightarrow> vec list list \<Rightarrow> vec list list \<Rightarrow> vec" where
  "attention_output sa q keys values =
     Linear (wo sa)
       (hd (attention_row (nat (sa_n_heads_q sa)) (nat (sa_head_dim sa)) [q]
              (hd (repeat_kv [keys] (nat (sa_n_rep sa))))
              (hd (repeat_kv [values] (nat (sa_n_rep sa))))))"

text \<open>
  The full pass of the specification, for one sequence \<open>xb\<close> of hidden vectors: the
  attention output at position \<open>p\<close> computed from the positions \<open>0, \<dots>, p\<close> alone, with no
  cache: the query of position \<open>p\<close> against the keys and values of the hidden vectors
  \<open>xb ! 0, \<dots>, xb ! p\<close>, each rotated with the row of its own position. It follows the
  words of the specification and not a function of the code, which has no such pass;
  the calls of the code are compared with it.
\<close>

definition full_pass_attention ::
  "SelfAttention \<Rightarrow> complex list list \<Rightarrow> vec list \<Rightarrow> nat \<Rightarrow> error + vec" where
  "full_pass_attention sa table xb p =
     err_bind (query_at sa table (xb ! p) p) (\<lambda>q.
     err_bind (mapM (\<lambda>i. key_at sa table (xb ! i) i) [0..<Suc p]) (\<lambda>keys.
       Inr (attention_output sa q keys (map (\<lambda>i. value_at sa (xb ! i)) [0..<Suc p]))))"

text \<open>
  An attention layer with one head of dimension 2 whose query projection is zero and
  whose output projection is the identity: every query weighs the positions it sees
  equally, so the output is the mean of the values it sees.
\<close>

definition mean_attention ::
  "real list list list list \<Rightarrow> real list list list list \<Rightarrow> SelfAttention" where
  "mean_attention ck cv = \<lparr>sa_n_kv_heads = 1, sa_n_heads_q = 1, sa_n_rep = 1, sa_head_dim = 2,
      wq = [[0, 0], [0, 0]],
      wk = [[1, 0], [0, 1]],
      wv = [[1, 2], [3, 4]],
      wo = [[1, 0], [0, 1]],
      cache_k = ck, cache_v = cv\<rparr>"

section \<open>Lemmas about errors and row-wise operations\<close>

lemma mapM_Inr_iff:
  "mapM f xs = Inr ys \<longleftrightarrow> length ys = length xs \<and> (\<forall>i < length xs. f (xs ! i) = Inr (ys ! i))"
proof (induction xs arbitrary: ys)
  case Nil
  then show ?case by auto
next
  case (Cons x xs)
  show ?case
  proof (cases ys)
    case Nil
    then show ?thesis by (auto split: sum.splits)
  next
    case (Cons y ys')
    then show ?thesis
      using Cons.IH[of ys']
      by (auto split: sum.splits simp: nth_Cons less_Suc_eq_0_disj)
  qed
qed

lemma mapM_Inr_map:
  "(\<And>x. x \<in> set xs \<Longrightarrow> f x = Inr (g x)) \<Longrightarrow> mapM f xs = Inr (map g xs)"
  by (induction xs) simp_all

lemma err_bind_Inr [simp]: "err_bind (Inr v) f = f v"
  by (simp add: err_bind_def)

lemma err_bind_Inl [simp]: "err_bind (Inl e) f = Inl e"
  by (simp add: err_bind_def)

lemma err_bind_eq_Inr:
  "err_bind m f = Inr r \<longleftrightarrow> (\<exists>v. m = Inr v \<and> f v = Inr r)"
  by (cases m) simp_all

lemma mapM_ex:
  "(\<forall>i < length xs. \<exists>y. f (xs ! i) = Inr y \<and> P i y)
   \<Longrightarrow> \<exists>ys. mapM f xs = Inr ys \<and> length ys = length xs \<and> (\<forall>i < length xs. P i (ys ! i))"
proof (induction xs arbitrary: P)
  case Nil
  then show ?case by simp
next
  case (Cons x xs)
  from Cons.prems obtain y where y: "f x = Inr y" "P 0 y" by fastforce
  have "\<forall>i < length xs. \<exists>y. f (xs ! i) = Inr y \<and> P (Suc i) y"
    using Cons.prems by fastforce
  from Cons.IH[of "\<lambda>i. P (Suc i)", OF this]
  obtain ys where ys: "mapM f xs = Inr ys" "length ys = length xs"
      "\<forall>i < length xs. P (Suc i) (ys ! i)" by blast
  have "\<forall>i < length (x # xs). P i ((y # ys) ! i)"
    using y(2) ys(3) by (auto simp: nth_Cons split: nat.splits)
  then show ?case using y(1) ys(1,2) by auto
qed


section \<open>The decoding loop and the token grid\<close>

lemma decode_step_Inr:
  assumes "decode_step tk temperature top_p rng pmask cur_pos st = Inr st'"
  shows "\<exists>logits model' next_token.
           Transformer_forward (gs_model st)
              (map (\<lambda>row. take 1 (drop (cur_pos - 1) row)) (tokens st)) cur_pos
             = Inr (logits, model')
         \<and> sample_next temperature top_p rng cur_pos logits = Inr next_token
         \<and> gs_model st' = model'
         \<and> gs_cur_pos st' = cur_pos
         \<and> length (tokens st') = length (tokens st)
         \<and> length (eos_reached st') = length (tokens st)
         \<and> (\<forall>b < length (tokens st).
               tokens st' ! b = (tokens st ! b)[cur_pos :=
                                  (if pmask ! b ! cur_pos then tokens st ! b ! cur_pos
                                   else next_token ! b)]
             \<and> eos_reached st' ! b = (eos_reached st ! b
                                     \<or> (\<not> pmask ! b ! cur_pos
                                         \<and> py_eq (next_token ! b) (eos_id tk))))"
proof -
  from assms obtain logits model' where f:
      "Transformer_forward (gs_model st)
          (map (\<lambda>row. take 1 (drop (cur_pos - 1) row)) (tokens st)) cur_pos = Inr (logits, model')"
    by (auto simp: decode_step_def err_bind_eq_Inr)
  with assms obtain next_token where n:
      "sample_next temperature top_p rng cur_pos logits = Inr next_token"
    by (auto simp: decode_step_def err_bind_eq_Inr)
  define nt where "nt = map (\<lambda>b. if pmask ! b ! cur_pos
                                   then tokens st ! b ! cur_pos else next_token ! b)
                          [0..<length (tokens st)]"
  from assms f n have st': "st' = \<lparr>tokens = map (\<lambda>b. (tokens st ! b)[cur_pos := nt ! b])
                                             [0..<length (tokens st)],
        eos_reached = map (\<lambda>b. eos_reached st ! b
                                     \<or> (\<not> pmask ! b ! cur_pos \<and> py_eq (nt ! b) (eos_id tk)))
                                [0..<length (tokens st)],
        gs_model = model', gs_cur_pos = cur_pos\<rparr>"
    by (simp add: decode_step_def Let_def nt_def)
  have ntb: "nt ! b = (if pmask ! b ! cur_pos then tokens st ! b ! cur_pos else next_token ! b)"
    if "b < length (tokens st)" for b
    using that by (simp add: nt_def)
  have "\<forall>b < length (tokens st).
               tokens st' ! b = (tokens st ! b)[cur_pos :=
                                  (if pmask ! b ! cur_pos then tokens st ! b ! cur_pos
                                   else next_token ! b)]
             \<and> eos_reached st' ! b = (eos_reached st ! b
                                     \<or> (\<not> pmask ! b ! cur_pos
                                         \<and> py_eq (next_token ! b) (eos_id tk)))"
    using ntb by (auto simp: st')
  with f n show ?thesis by (simp add: st')
qed

lemma decode_step_tokens:
  assumes "decode_step tk temperature top_p rng pmask cur_pos st = Inr st'"
  shows "length (tokens st') = length (tokens st)"
    and "\<forall>b < length (tokens st). length (tokens st' ! b) = length (tokens st ! b)"
    and "\<forall>b < length (tokens st). \<forall>j. j \<noteq> cur_pos \<longrightarrow> tokens st' ! b ! j = tokens st ! b ! j"
    and "\<forall>b < length (tokens st). pmask ! b ! cur_pos \<longrightarrow> tokens st' ! b = tokens st ! b"
  using decode_step_Inr[OF assms] by auto

lemma decode_loop_tokens:
  assumes "decode_loop tk temperature top_p rng pmask ps st = Inr st'"
  shows "length (tokens st') = length (tokens st)
       \<and> (\<forall>b < length (tokens st). length (tokens st' ! b) = length (tokens st ! b)
            \<and> (\<forall>j. j \<notin> set ps \<or> pmask ! b ! j \<longrightarrow> tokens st' ! b ! j = tokens st ! b ! j))"
  using assms
proof (induction ps arbitrary: st)
  case Nil
  then show ?case by simp
next
  case (Cons c ps)
  from Cons.prems obtain st1 where s1: "decode_step tk temperature top_p rng pmask c st = Inr st1"
      and rest: "list_all (\<lambda>e. e) (eos_reached st1) \<and> st' = st1
                 \<or> decode_loop tk temperature top_p rng pmask ps st1 = Inr st'"
    by (auto split: sum.splits if_splits)
  note t = decode_step_tokens[OF s1]
  have one: "length (tokens st1) = length (tokens st)
       \<and> (\<forall>b < length (tokens st). length (tokens st1 ! b) = length (tokens st ! b)
            \<and> (\<forall>j. j \<notin> set (c # ps) \<or> pmask ! b ! j \<longrightarrow> tokens st1 ! b ! j = tokens st ! b ! j))"
    using t by (metis list.set_intros(1))
  from rest show ?case
  proof
    assume "list_all (\<lambda>e. e) (eos_reached st1) \<and> st' = st1"
    then show ?thesis using one by simp
  next
    assume "decode_loop tk temperature top_p rng pmask ps st1 = Inr st'"
    from Cons.IH[OF this] one show ?thesis
      by (metis list.set_intros(2))
  qed
qed


lemma generation_Inr:
  assumes "generation self prompt_tokens temperature top_p max_gen_len rng = Inr st"
  shows "\<exists>total_len.
           prompt_tokens \<noteq> []
         \<and> int (length prompt_tokens) \<le> max_batch_size (llama_args self)
         \<and> int total_len \<le> max_seq_len (llama_args self)
         \<and> (\<forall>t \<in> set prompt_tokens. length t \<le> total_len \<or> total_len = 0 \<and> length t = 1)
         \<and> decode_loop (tokenizer self) temperature top_p rng
              (prompt_mask (pad_id (tokenizer self))
                 (token_grid (pad_id (tokenizer self)) total_len prompt_tokens))
              [1..<total_len]
              \<lparr>tokens = token_grid (pad_id (tokenizer self)) total_len prompt_tokens,
               eos_reached = replicate (length prompt_tokens) False,
               gs_model = model self, gs_cur_pos = 0\<rparr> = Inr st"
proof -
  let ?g = "case max_gen_len of None \<Rightarrow> max_seq_len (llama_args self) - 1 | Some g \<Rightarrow> g"
  let ?tl = "min (max_seq_len (llama_args self))
                 (?g + int (Max (set (map length prompt_tokens))))"
  from assms have c: "prompt_tokens \<noteq> []"
      "int (length prompt_tokens) \<le> max_batch_size (llama_args self)"
      "\<not> ?tl < 0"
      "\<not> list_ex (\<lambda>t. int (length t) > ?tl \<and> length t \<noteq> 1) prompt_tokens"
    by (auto simp: generation_def Let_def split: if_splits)
  with assms have loop: "decode_loop (tokenizer self) temperature top_p rng
              (prompt_mask (pad_id (tokenizer self))
                 (token_grid (pad_id (tokenizer self)) (nat ?tl) prompt_tokens))
              [1..<nat ?tl]
              \<lparr>tokens = token_grid (pad_id (tokenizer self)) (nat ?tl) prompt_tokens,
               eos_reached = replicate (length prompt_tokens) False,
               gs_model = model self, gs_cur_pos = 0\<rparr> = Inr st"
    by (simp add: generation_def Let_def split: if_splits)
  have "length t \<le> nat ?tl \<or> nat ?tl = 0 \<and> length t = 1" if "t \<in> set prompt_tokens" for t
  proof -
    have "\<not> (int (length t) > ?tl \<and> length t \<noteq> 1)"
      using c(4) that by (simp add: list_ex_iff)
    then have "int (length t) \<le> ?tl \<or> length t = 1" by linarith
    then show ?thesis using c(3) by linarith
  qed
  moreover have "?tl \<le> max_seq_len (llama_args self)" by (rule min.cobounded1)
  then have "int (nat ?tl) \<le> max_seq_len (llama_args self)" using c(3) by linarith
  ultimately show ?thesis using c(1,2) loop by blast
qed

lemma token_grid_nth:
  assumes "i < length prompt_tokens" "length (prompt_tokens ! i) \<le> n"
  shows "length (token_grid pad n prompt_tokens ! i) = n"
    and "take (length (prompt_tokens ! i)) (token_grid pad n prompt_tokens ! i) = prompt_tokens ! i"
    and "j < length (prompt_tokens ! i) \<Longrightarrow> token_grid pad n prompt_tokens ! i ! j = prompt_tokens ! i ! j"
    and "length (prompt_tokens ! i) \<le> j \<Longrightarrow> j < n \<Longrightarrow> token_grid pad n prompt_tokens ! i ! j = pad"
  using assms by (simp_all add: token_grid_def nth_append)

lemma token_grid_length [simp]: "length (token_grid pad n prompt_tokens) = length prompt_tokens"
  by (simp add: token_grid_def)

lemma token_grid_row_length:
  "i < length prompt_tokens \<Longrightarrow> length (token_grid pad n prompt_tokens ! i) = n"
  by (simp add: token_grid_def)

lemma prompt_mask_nth:
  "i < length g \<Longrightarrow> j < length (g ! i) \<Longrightarrow> prompt_mask pad g ! i ! j = (g ! i ! j \<noteq> pad)"
  by (simp add: prompt_mask_def)

lemma cut_eos_takeWhile: "cut_eos a row = takeWhile (\<lambda>t. \<not> py_eq t a) row"
proof (cases "list_ex (\<lambda>t. py_eq t a) row")
  case True
  have "take (length (takeWhile (\<lambda>t. \<not> py_eq t a) row)) row = takeWhile (\<lambda>t. \<not> py_eq t a) row"
    by (rule takeWhile_eq_take[symmetric])
  with True show ?thesis by (simp only: cut_eos_def py_index_def if_True)
next
  case False
  then have "\<forall>t \<in> set row. \<not> py_eq t a" by (simp add: list_ex_iff)
  then have "takeWhile (\<lambda>t. \<not> py_eq t a) row = row"
    by (induction row) simp_all
  moreover have "cut_eos a row = row" using False by (simp only: cut_eos_def if_False)
  ultimately show ?thesis by (simp only:)
qed

lemma cut_eos_prefix:
  "length (cut_eos a row) \<le> length row"
  "j < length (cut_eos a row) \<Longrightarrow> cut_eos a row ! j = row ! j"
  by (simp_all add: cut_eos_takeWhile length_takeWhile_le takeWhile_nth)

lemma generation_keeps_prompt:
  assumes "\<forall>t \<in> set prompt_tokens. pad_id (tokenizer self) \<notin> set t"
    and "generation self prompt_tokens temperature top_p max_gen_len rng = Inr st"
  shows "length (tokens st) = length prompt_tokens"
    and "\<forall>i < length prompt_tokens.
           take (length (prompt_tokens ! i)) (tokens st ! i)
             = take (length (tokens st ! i)) (prompt_tokens ! i)"
proof -
  let ?pad = "pad_id (tokenizer self)"
  from generation_Inr[OF assms(2)] obtain n where n:
      "\<forall>t \<in> set prompt_tokens. length t \<le> n \<or> n = 0 \<and> length t = 1"
      "decode_loop (tokenizer self) temperature top_p rng
              (prompt_mask ?pad (token_grid ?pad n prompt_tokens)) [1..<n]
              \<lparr>tokens = token_grid ?pad n prompt_tokens,
               eos_reached = replicate (length prompt_tokens) False,
               gs_model = model self, gs_cur_pos = 0\<rparr> = Inr st"
    by blast
  let ?g = "token_grid ?pad n prompt_tokens"
  note inv = decode_loop_tokens[OF n(2)]
  show len: "length (tokens st) = length prompt_tokens" using inv by simp
  show "\<forall>i < length prompt_tokens.
           take (length (prompt_tokens ! i)) (tokens st ! i)
             = take (length (tokens st ! i)) (prompt_tokens ! i)"
  proof (intro allI impI)
    fix i assume i: "i < length prompt_tokens"
    let ?t = "prompt_tokens ! i"
    have rl: "length (tokens st ! i) = n"
      using inv i token_grid_row_length[OF i, of ?pad n] by simp
    show "take (length ?t) (tokens st ! i) = take (length (tokens st ! i)) ?t"
    proof (cases "length ?t \<le> n")
      case tn: True
      note g = token_grid_nth[OF i tn, where pad = ?pad]
      have "tokens st ! i ! j = ?t ! j" if j: "j < length ?t" for j
      proof -
        have "?t ! j \<noteq> ?pad" using assms(1) i j by (metis nth_mem)
        then have "prompt_mask ?pad ?g ! i ! j" using i j tn g(1) g(3)[OF j]
          by (simp add: prompt_mask_nth)
        then have "tokens st ! i ! j = ?g ! i ! j" using inv i by simp
        then show ?thesis using g(3)[OF j] by simp
      qed
      then have "take (length ?t) (tokens st ! i) = ?t"
        using rl tn by (intro nth_equalityI) simp_all
      then show ?thesis using rl tn by simp
    next
      case False
      then have "n = 0" using n(1) i by (metis nth_mem)
      then show ?thesis using rl by simp
    qed
  qed
qed

section \<open>Runs of the model without layers\<close>

lemma chain_forward:
  "Transformer_forward chain_model [[0]] pos = Inr ([[[1, 0, 0, 0]]], chain_model)"
  "Transformer_forward chain_model [[1]] pos = Inr ([[[0, 0, 0, 1]]], chain_model)"
  "Transformer_forward chain_model [[2]] pos = Inr ([[[0, 0, 0, 1]]], chain_model)"
  "Transformer_forward chain_model [[3]] pos = Inr ([[[0, 0, 1, 0]]], chain_model)"
  by (simp_all add: Transformer_forward_def shape1_def chain_model_def Embedding_def
      RMSNorm_forward_def RMSNorm_norm_def mean_def Linear_def dot_def Let_def)

lemma chain_argmax:
  "argmax [1, 0, 0, 0] = Inr 0" "argmax [0, 0, 0, 1] = Inr 3" "argmax [0, 0, 1, 0] = Inr 2"
  by (simp_all add: argmax_def)

lemma chain_sample:
  "sample_next 0 top_p rng cur_pos [[[1, 0, 0, 0]]] = Inr [0]"
  "sample_next 0 top_p rng cur_pos [[[0, 0, 0, 1]]] = Inr [3]"
  "sample_next 0 top_p rng cur_pos [[[0, 0, 1, 0]]] = Inr [2]"
  by (simp_all add: sample_next_def chain_argmax)

lemma chain_step:
  assumes "row ! (cur_pos - 1) \<in> {0, 1, 2, 3}" "cur_pos - 1 < length row"
  shows "decode_step tk 0 top_p rng [mrow] cur_pos
           \<lparr>tokens = [row], eos_reached = [e], gs_model = chain_model, gs_cur_pos = c\<rparr>
         = (let t = row ! (cur_pos - 1);
                nxt = (if t = 0 then 0 else if t = 3 then 2 else 3);
                new = (if mrow ! cur_pos then row ! cur_pos else nxt)
            in Inr \<lparr>tokens = [row[cur_pos := new]],
                    eos_reached = [e \<or> (\<not> mrow ! cur_pos \<and> py_eq new (eos_id tk))],
                    gs_model = chain_model, gs_cur_pos = cur_pos\<rparr>)"
proof -
  have tk1: "take (Suc 0) (drop (cur_pos - Suc 0) row) = [row ! (cur_pos - Suc 0)]"
    using assms(2) by (simp add: take_Suc_conv_app_nth)
  show ?thesis
    using assms(1) by (auto simp: decode_step_def tk1 chain_forward chain_sample Let_def)
qed


section \<open>What a forward call does to the caches\<close>

lemma cache_write_Inr:
  assumes "cache_write c start xs = Inr c'"
  shows "length c' = length c" and "length xs \<le> length c"
    and "\<forall>b < length c. length (c' ! b) = length (c ! b)"
    and "\<forall>b j. b < length c \<and> j < length (c ! b) \<longrightarrow>
           c' ! b ! j = (if b < length xs \<and> start \<le> j \<and> j < start + length (xs ! b)
                         then xs ! b ! (j - start) else c ! b ! j)"
proof -
  let ?f = "\<lambda>row new. take start row @ take (length row - start) new
                                  @ drop (start + length new) row"
  have ok: "length xs \<le> length c"
      "list_all (\<lambda>(row, new). start + length new \<le> length row \<or> length new = 1) (zip c xs)"
    and c': "c' = map2 ?f c xs @ drop (length xs) c"
    using assms by (auto simp: cache_write_def split: if_splits)
  show "length xs \<le> length c" by (rule ok(1))
  show "length c' = length c" using ok(1) by (simp add: c')
  have fit: "start + length (xs ! b) \<le> length (c ! b) \<or> length (xs ! b) = 1"
    if "b < length xs" for b
    using ok that by (auto simp: list_all_length)
  have row: "c' ! b = (if b < length xs then ?f (c ! b) (xs ! b) else c ! b)"
    if "b < length c" for b
    using that ok(1) by (auto simp: c' nth_append)
  have lenf: "length (?f r n) = length r" if "start + length n \<le> length r \<or> length n = 1" for r n
    using that by auto
  show "\<forall>b < length c. length (c' ! b) = length (c ! b)"
  proof (intro allI impI)
    fix b assume b: "b < length c"
    show "length (c' ! b) = length (c ! b)"
    proof (cases "b < length xs")
      case True
      then have "c' ! b = ?f (c ! b) (xs ! b)" using row[OF b] by simp
      then show ?thesis using lenf[OF fit[OF True]] by (simp only:)
    next
      case False
      then show ?thesis using row[OF b] by simp
    qed
  qed
  show "\<forall>b j. b < length c \<and> j < length (c ! b) \<longrightarrow>
           c' ! b ! j = (if b < length xs \<and> start \<le> j \<and> j < start + length (xs ! b)
                         then xs ! b ! (j - start) else c ! b ! j)"
  proof (intro allI impI)
    fix b j assume bj: "b < length c \<and> j < length (c ! b)"
    show "c' ! b ! j = (if b < length xs \<and> start \<le> j \<and> j < start + length (xs ! b)
                         then xs ! b ! (j - start) else c ! b ! j)"
    proof (cases "b < length xs")
      case False
      then show ?thesis using row bj by simp
    next
      case True
      let ?r = "c ! b" let ?n = "xs ! b"
      have r: "c' ! b = ?f ?r ?n" using row bj True by simp
      from fit[OF True] show ?thesis
      proof
        assume cap: "start + length ?n \<le> length ?r"
        then have "?f ?r ?n = take start ?r @ ?n @ drop (start + length ?n) ?r" by simp
        then show ?thesis using r bj cap True
          by (auto simp: nth_append)
      next
        assume one: "length ?n = 1"
        show ?thesis
        proof (cases "start + 1 \<le> length ?r")
          case True
          then have "?f ?r ?n = take start ?r @ ?n @ drop (start + length ?n) ?r"
            using one by simp
          then show ?thesis using r bj one True \<open>b < length xs\<close>
            by (auto simp: nth_append)
        next
          case False
          then have "?f ?r ?n = ?r" using one by simp
          then show ?thesis using r bj False by auto
        qed
      qed
    qed
  qed
qed


lemma rotary_embeddings_Inr:
  assumes "rotary_embeddings x fc = Inr y"
  shows "length y = length x"
    and "\<forall>b < length x. \<exists>fs. broadcast_to (length (x ! b)) fc = Inr fs
            \<and> length (y ! b) = length (x ! b)
            \<and> (\<forall>s < length (x ! b). mapM (\<lambda>v. rotate v (fs ! s)) (x ! b ! s) = Inr (y ! b ! s))"
proof -
  let ?g = "\<lambda>xb. err_bind (broadcast_to (length xb) fc) (\<lambda>fs.
             mapM (\<lambda>(heads, fr). mapM (\<lambda>v. rotate v fr) heads) (zip xb fs))"
  have m: "length y = length x" "\<forall>b < length x. ?g (x ! b) = Inr (y ! b)"
    using assms by (simp_all add: rotary_embeddings_def mapM_Inr_iff)
  show "length y = length x" by (rule m(1))
  show "\<forall>b < length x. \<exists>fs. broadcast_to (length (x ! b)) fc = Inr fs
            \<and> length (y ! b) = length (x ! b)
            \<and> (\<forall>s < length (x ! b). mapM (\<lambda>v. rotate v (fs ! s)) (x ! b ! s) = Inr (y ! b ! s))"
  proof (intro allI impI)
    fix b assume "b < length x"
    then have "?g (x ! b) = Inr (y ! b)" using m(2) by simp
    then obtain fs where fs: "broadcast_to (length (x ! b)) fc = Inr fs"
        "mapM (\<lambda>(heads, fr). mapM (\<lambda>v. rotate v fr) heads) (zip (x ! b) fs) = Inr (y ! b)"
      by (auto simp: err_bind_eq_Inr)
    have lfs: "length fs = length (x ! b)"
      using fs(1) by (auto simp: broadcast_to_def split: if_splits)
    from fs(2) lfs have "length (y ! b) = length (x ! b)"
      "\<forall>s < length (x ! b). mapM (\<lambda>v. rotate v (fs ! s)) (x ! b ! s) = Inr (y ! b ! s)"
      by (simp_all add: mapM_Inr_iff)
    with fs(1) show "\<exists>fs. broadcast_to (length (x ! b)) fc = Inr fs
            \<and> length (y ! b) = length (x ! b)
            \<and> (\<forall>s < length (x ! b). mapM (\<lambda>v. rotate v (fs ! s)) (x ! b ! s) = Inr (y ! b ! s))"
      by blast
  qed
qed

lemma SelfAttention_forward_Inr:
  assumes "SelfAttention_forward sa x start fc = Inr (out, sa')"
  shows "\<exists>xq xk. rotary_embeddings (map (map (view_heads (nat (sa_n_heads_q sa)) (nat (sa_head_dim sa))))
                        (map (map (Linear (wq sa))) x)) fc = Inr xq
          \<and> rotary_embeddings (map (map (view_heads (nat (sa_n_kv_heads sa)) (nat (sa_head_dim sa))))
                        (map (map (Linear (wk sa))) x)) fc = Inr xk
          \<and> cache_write (cache_k sa) start xk = Inr (cache_k sa')
          \<and> cache_write (cache_v sa) start
                (map (map (view_heads (nat (sa_n_kv_heads sa)) (nat (sa_head_dim sa))))
                        (map (map (Linear (wv sa))) x)) = Inr (cache_v sa')
          \<and> sa' = sa\<lparr>cache_k := cache_k sa', cache_v := cache_v sa'\<rparr>
          \<and> sa_n_kv_heads sa * sa_n_rep sa = sa_n_heads_q sa
          \<and> out = map (\<lambda>(q, k, v). map (Linear (wo sa))
                          (attention_row (nat (sa_n_heads_q sa)) (nat (sa_head_dim sa)) q k v))
                    (zip xq (zip
                       (repeat_kv (map (take (start + shape1 x)) (take (length x) (cache_k sa')))
                          (nat (sa_n_rep sa)))
                       (repeat_kv (map (take (start + shape1 x)) (take (length x) (cache_v sa')))
                          (nat (sa_n_rep sa)))))"
  using assms
  by (simp only: SelfAttention_forward_def Let_def err_bind_eq_Inr)
     (auto split: if_splits)

lemma cache_frame_refl [simp]: "cache_frame W c c"
  by (simp add: cache_frame_def)

lemma cache_frame_trans:
  assumes "cache_frame W1 c c'" "cache_frame W2 c' c''"
  shows "cache_frame (W1 \<union> W2) c c''"
  unfolding cache_frame_def
proof (intro conjI allI impI)
  show "length c'' = length c" using assms by (simp add: cache_frame_def)
next
  fix b assume b: "b < length c"
  then have b': "b < length c'" using assms(1) by (simp add: cache_frame_def)
  show "length (c'' ! b) = length (c ! b)"
    using assms b b' by (simp add: cache_frame_def)
next
  fix b j assume b: "b < length c" and j: "j < length (c ! b)" and w: "j \<notin> W1 \<union> W2"
  have b': "b < length c'" using assms(1) b by (simp add: cache_frame_def)
  have j': "j < length (c' ! b)" using assms(1) b j by (simp add: cache_frame_def)
  have "c'' ! b ! j = c' ! b ! j" using assms(2) b' j' w by (simp add: cache_frame_def)
  also have "\<dots> = c ! b ! j" using assms(1) b j w by (simp add: cache_frame_def)
  finally show "c'' ! b ! j = c ! b ! j" .
qed

lemma cache_frame_mono:
  assumes "cache_frame W c c'" "W \<subseteq> W'"
  shows "cache_frame W' c c'"
  unfolding cache_frame_def
proof (intro conjI allI impI)
  show "length c' = length c" using assms(1) by (simp add: cache_frame_def)
next
  fix b assume "b < length c"
  then show "length (c' ! b) = length (c ! b)" using assms(1) by (simp add: cache_frame_def)
next
  fix b j assume "b < length c" "j < length (c ! b)" "j \<notin> W'"
  moreover from this assms(2) have "j \<notin> W" by blast
  ultimately show "c' ! b ! j = c ! b ! j" using assms(1) by (simp add: cache_frame_def)
qed

lemma layer_frame_refl [simp]: "layer_frame W l l"
  by (simp add: layer_frame_def)

lemma layer_frame_trans:
  assumes "layer_frame W1 l l'" "layer_frame W2 l' l''"
  shows "layer_frame (W1 \<union> W2) l l''"
proof -
  define k1 v1 where "k1 = cache_k (attention l')" and "v1 = cache_v (attention l')"
  define k2 v2 where "k2 = cache_k (attention l'')" and "v2 = cache_v (attention l'')"
  have e1: "l' = l\<lparr>attention := (attention l)\<lparr>cache_k := k1, cache_v := v1\<rparr>\<rparr>"
    using assms(1) by (simp add: layer_frame_def k1_def v1_def)
  have e2: "l'' = l'\<lparr>attention := (attention l')\<lparr>cache_k := k2, cache_v := v2\<rparr>\<rparr>"
    using assms(2) by (simp add: layer_frame_def k2_def v2_def)
  have "l'' = l\<lparr>attention := (attention l)\<lparr>cache_k := k2, cache_v := v2\<rparr>\<rparr>"
    by (subst e2, subst e1, subst e1) simp
  then have eq: "l'' = l\<lparr>attention := (attention l)\<lparr>cache_k := cache_k (attention l''),
                                          cache_v := cache_v (attention l'')\<rparr>\<rparr>"
    by (simp only: k2_def v2_def)
  have "cache_frame (W1 \<union> W2) (cache_k (attention l)) (cache_k (attention l''))"
    using assms by (auto simp: layer_frame_def intro: cache_frame_trans)
  moreover have "cache_frame (W1 \<union> W2) (cache_v (attention l)) (cache_v (attention l''))"
    using assms by (auto simp: layer_frame_def intro: cache_frame_trans)
  ultimately show ?thesis using eq unfolding layer_frame_def by blast
qed

lemma layer_frame_mono: "layer_frame W l l' \<Longrightarrow> W \<subseteq> W' \<Longrightarrow> layer_frame W' l l'"
  unfolding layer_frame_def using cache_frame_mono by blast

lemma model_frame_refl [simp]: "model_frame W m m"
  by (simp add: model_frame_def)


lemma model_frame_trans:
  assumes "model_frame W1 m m'" "model_frame W2 m' m''"
  shows "model_frame (W1 \<union> W2) m m''"
proof -
  define ls1 where "ls1 = layers m'"
  define ls2 where "ls2 = layers m''"
  have e1: "m' = m\<lparr>layers := ls1\<rparr>" using assms(1) by (simp add: model_frame_def ls1_def)
  have e2: "m'' = m'\<lparr>layers := ls2\<rparr>" using assms(2) by (simp add: model_frame_def ls2_def)
  have "m'' = m\<lparr>layers := ls2\<rparr>" by (subst e2, subst e1) simp
  then have eq: "m'' = m\<lparr>layers := layers m''\<rparr>" by (simp only: ls2_def)
  have len: "length (layers m') = length (layers m)" "length (layers m'') = length (layers m')"
    using assms by (simp_all add: model_frame_def)
  have "layer_frame (W1 \<union> W2) (layers m ! l) (layers m'' ! l)" if "l < length (layers m)" for l
  proof -
    have "layer_frame W1 (layers m ! l) (layers m' ! l)"
      using assms(1) that by (simp add: model_frame_def)
    moreover have "layer_frame W2 (layers m' ! l) (layers m'' ! l)"
      using assms(2) that len by (simp add: model_frame_def)
    ultimately show ?thesis by (rule layer_frame_trans)
  qed
  then show ?thesis using eq len unfolding model_frame_def by simp
qed

lemma model_frame_mono: "model_frame W m m' \<Longrightarrow> W \<subseteq> W' \<Longrightarrow> model_frame W' m m'"
  unfolding model_frame_def using layer_frame_mono by blast

lemma model_frame_first_layer:
  assumes "model_frame W m m'"
  shows "first_layer_key m' t pos = first_layer_key m t pos"
    and "first_layer_value m' t = first_layer_value m t"
proof -
  define ls where "ls = layers m'"
  have e: "m' = m\<lparr>layers := ls\<rparr>" using assms by (simp add: model_frame_def ls_def)
  have w: "wk (attention (layers m' ! 0)) = wk (attention (layers m ! 0))
         \<and> wv (attention (layers m' ! 0)) = wv (attention (layers m ! 0))
         \<and> sa_n_kv_heads (attention (layers m' ! 0)) = sa_n_kv_heads (attention (layers m ! 0))
         \<and> sa_head_dim (attention (layers m' ! 0)) = sa_head_dim (attention (layers m ! 0))
         \<and> attention_norm (layers m' ! 0) = attention_norm (layers m ! 0)"
  proof (cases "layers m = []")
    case True
    then have "layers m' = []" using assms by (simp add: model_frame_def)
    then show ?thesis using True by simp
  next
    case False
    then have "layer_frame W (layers m ! 0) (layers m' ! 0)"
      using assms by (simp add: model_frame_def)
    then obtain k v where
      "layers m' ! 0 = (layers m ! 0)\<lparr>attention := (attention (layers m ! 0))\<lparr>cache_k := k, cache_v := v\<rparr>\<rparr>"
      unfolding layer_frame_def by blast
    then show ?thesis by simp
  qed
  have t: "tok_embeddings m' = tok_embeddings m" "freqs_complex m' = freqs_complex m"
    by (subst e, simp)+
  show "first_layer_key m' t pos = first_layer_key m t pos"
    by (simp add: first_layer_key_def w t Let_def)
  show "first_layer_value m' t = first_layer_value m t"
    by (simp add: first_layer_value_def w t Let_def)
qed

lemma cache_write_frame:
  assumes "cache_write c start xs = Inr c'" "\<forall>b < length xs. length (xs ! b) \<le> 1"
  shows "cache_frame {start} c c'"
  unfolding cache_frame_def
proof (intro conjI allI impI)
  note w = cache_write_Inr[OF assms(1)]
  show "length c' = length c" by (rule w(1))
  fix b assume b: "b < length c"
  show "length (c' ! b) = length (c ! b)" using w(3) b by simp
  fix j assume j: "j < length (c ! b)" "j \<notin> {start}"
  have neg: "\<not> (b < length xs \<and> start \<le> j \<and> j < start + length (xs ! b))"
  proof
    assume a: "b < length xs \<and> start \<le> j \<and> j < start + length (xs ! b)"
    then have "length (xs ! b) \<le> 1" using assms(2) by simp
    with a have "j = start" by simp
    with j(2) show False by simp
  qed
  have "c' ! b ! j = (if b < length xs \<and> start \<le> j \<and> j < start + length (xs ! b)
                         then xs ! b ! (j - start) else c ! b ! j)"
    using w(4) b j(1) by blast
  then show "c' ! b ! j = c ! b ! j" using neg by (simp only: if_False)
qed

lemma SelfAttention_forward_caches:
  assumes "SelfAttention_forward sa x start fc = Inr (out, sa')"
  shows "sa' = sa\<lparr>cache_k := cache_k sa', cache_v := cache_v sa'\<rparr>"
    and "(\<forall>b < length x. length (x ! b) \<le> 1) \<longrightarrow>
           cache_frame {start} (cache_k sa) (cache_k sa')
         \<and> cache_frame {start} (cache_v sa) (cache_v sa')"
    and "\<forall>b s. b < length x \<and> s < length (x ! b) \<and> start + s < length (cache_k sa ! b) \<longrightarrow>
           (\<exists>fs. broadcast_to (length (x ! b)) fc = Inr fs
              \<and> mapM (\<lambda>v. rotate v (fs ! s))
                   (view_heads (nat (sa_n_kv_heads sa)) (nat (sa_head_dim sa))
                      (Linear (wk sa) (x ! b ! s)))
                 = Inr (cache_k sa' ! b ! (start + s)))"
    and "\<forall>b s. b < length x \<and> s < length (x ! b) \<and> start + s < length (cache_v sa ! b) \<longrightarrow>
           cache_v sa' ! b ! (start + s)
             = view_heads (nat (sa_n_kv_heads sa)) (nat (sa_head_dim sa))
                 (Linear (wv sa) (x ! b ! s))"
proof -
  let ?kx = "map (map (view_heads (nat (sa_n_kv_heads sa)) (nat (sa_head_dim sa))))
                        (map (map (Linear (wk sa))) x)"
  let ?vx = "map (map (view_heads (nat (sa_n_kv_heads sa)) (nat (sa_head_dim sa))))
                        (map (map (Linear (wv sa))) x)"
  from SelfAttention_forward_Inr[OF assms] obtain xk where
      r: "rotary_embeddings ?kx fc = Inr xk"
      and ck: "cache_write (cache_k sa) start xk = Inr (cache_k sa')"
      and cv: "cache_write (cache_v sa) start ?vx = Inr (cache_v sa')"
      and eq: "sa' = sa\<lparr>cache_k := cache_k sa', cache_v := cache_v sa'\<rparr>"
    by blast
  show "sa' = sa\<lparr>cache_k := cache_k sa', cache_v := cache_v sa'\<rparr>" by (rule eq)
  note re = rotary_embeddings_Inr[OF r]
  have lk: "length xk = length x" using re(1) by simp
  have rb: "\<exists>fs. broadcast_to (length (x ! b)) fc = Inr fs
            \<and> length (xk ! b) = length (x ! b)
            \<and> (\<forall>s < length (x ! b). mapM (\<lambda>v. rotate v (fs ! s)) (?kx ! b ! s) = Inr (xk ! b ! s))"
    if "b < length x" for b
  proof -
    have bk: "b < length ?kx" "length (?kx ! b) = length (x ! b)" using that by simp_all
    have "\<exists>fs. broadcast_to (length (?kx ! b)) fc = Inr fs
            \<and> length (xk ! b) = length (?kx ! b)
            \<and> (\<forall>s < length (?kx ! b). mapM (\<lambda>v. rotate v (fs ! s)) (?kx ! b ! s) = Inr (xk ! b ! s))"
      using re(2) bk(1) by blast
    then show ?thesis unfolding bk(2) .
  qed
  have lkb: "length (xk ! b) = length (x ! b)" if "b < length x" for b
    using rb[OF that] by blast
  show "(\<forall>b < length x. length (x ! b) \<le> 1) \<longrightarrow>
           cache_frame {start} (cache_k sa) (cache_k sa')
         \<and> cache_frame {start} (cache_v sa) (cache_v sa')"
  proof
    assume thin: "\<forall>b < length x. length (x ! b) \<le> 1"
    have "cache_frame {start} (cache_k sa) (cache_k sa')"
      using thin lk lkb by (intro cache_write_frame[OF ck]) simp
    moreover have "cache_frame {start} (cache_v sa) (cache_v sa')"
      using thin by (intro cache_write_frame[OF cv]) simp
    ultimately show "cache_frame {start} (cache_k sa) (cache_k sa')
         \<and> cache_frame {start} (cache_v sa) (cache_v sa')" ..
  qed
  note wk = cache_write_Inr[OF ck]
  note wv = cache_write_Inr[OF cv]
  show "\<forall>b s. b < length x \<and> s < length (x ! b) \<and> start + s < length (cache_k sa ! b) \<longrightarrow>
           (\<exists>fs. broadcast_to (length (x ! b)) fc = Inr fs
              \<and> mapM (\<lambda>v. rotate v (fs ! s))
                   (view_heads (nat (sa_n_kv_heads sa)) (nat (sa_head_dim sa))
                      (Linear (wk sa) (x ! b ! s)))
                 = Inr (cache_k sa' ! b ! (start + s)))"
  proof (intro allI impI)
    fix b s assume a: "b < length x \<and> s < length (x ! b) \<and> start + s < length (cache_k sa ! b)"
    then have bx: "b < length x" by simp
    from rb[OF bx] obtain fs where fs: "broadcast_to (length (x ! b)) fc = Inr fs"
        "\<forall>s < length (x ! b). mapM (\<lambda>v. rotate v (fs ! s)) (?kx ! b ! s) = Inr (xk ! b ! s)"
      by blast
    have bc: "b < length (cache_k sa)" using wk(2) lk a by simp
    have "cache_k sa' ! b ! (start + s) = xk ! b ! s"
      using wk(4) bc a lk lkb by simp
    moreover have "?kx ! b ! s = view_heads (nat (sa_n_kv_heads sa)) (nat (sa_head_dim sa))
                      (Linear (wk sa) (x ! b ! s))"
      using a by simp
    ultimately show "\<exists>fs. broadcast_to (length (x ! b)) fc = Inr fs
              \<and> mapM (\<lambda>v. rotate v (fs ! s))
                   (view_heads (nat (sa_n_kv_heads sa)) (nat (sa_head_dim sa))
                      (Linear (wk sa) (x ! b ! s)))
                 = Inr (cache_k sa' ! b ! (start + s))"
      using fs a by auto
  qed
  show "\<forall>b s. b < length x \<and> s < length (x ! b) \<and> start + s < length (cache_v sa ! b) \<longrightarrow>
           cache_v sa' ! b ! (start + s)
             = view_heads (nat (sa_n_kv_heads sa)) (nat (sa_head_dim sa))
                 (Linear (wv sa) (x ! b ! s))"
  proof (intro allI impI)
    fix b s assume a: "b < length x \<and> s < length (x ! b) \<and> start + s < length (cache_v sa ! b)"
    have bc: "b < length (cache_v sa)" using wv(2) a by simp
    have "cache_v sa' ! b ! (start + s) = ?vx ! b ! s"
      using wv(4) bc a by simp
    then show "cache_v sa' ! b ! (start + s)
             = view_heads (nat (sa_n_kv_heads sa)) (nat (sa_head_dim sa))
                 (Linear (wv sa) (x ! b ! s))"
      using a by simp
  qed
qed


lemma tensor_add_thin:
  assumes "\<forall>row \<in> set x. length row \<le> (1::nat)"
  shows "\<forall>row \<in> set (tensor_add x y). length row \<le> 1"
proof
  fix row assume "row \<in> set (tensor_add x y)"
  then obtain b where b: "b < length (tensor_add x y)" "row = tensor_add x y ! b"
    by (auto simp: in_set_conv_nth)
  then have bx: "b < length x" "b < length y" by (simp_all add: tensor_add_def)
  then have "length row \<le> length (x ! b)" using b(2) by (simp add: tensor_add_def)
  moreover have "length (x ! b) \<le> 1" using assms bx(1) by simp
  ultimately show "length row \<le> 1" by simp
qed

lemma EncoderBlock_forward_frame:
  assumes "EncoderBlock_forward L x start fc = Inr (out, L')"
    and "\<forall>row \<in> set x. length row \<le> (1::nat)"
  shows "layer_frame {start} L L'"
    and "\<forall>row \<in> set out. length row \<le> 1"
    and "\<exists>a. SelfAttention_forward (attention L)
                (map (map (RMSNorm_forward (attention_norm L))) x) start fc
              = Inr (a, attention L')"
proof -
  let ?x = "map (map (RMSNorm_forward (attention_norm L))) x"
  from assms(1) obtain a sa' where
      f: "SelfAttention_forward (attention L) ?x start fc = Inr (a, sa')"
      and L': "L' = L\<lparr>attention := sa'\<rparr>"
      and out: "out = tensor_add (tensor_add x a)
                  (map (map (\<lambda>v. FeedForward_forward (feed_forward L)
                                     (RMSNorm_forward (ffn_norm L) v))) (tensor_add x a))"
    by (auto simp: EncoderBlock_forward_def err_bind_eq_Inr Let_def)
  have att: "attention L' = sa'" by (simp add: L')
  show "\<exists>a. SelfAttention_forward (attention L) ?x start fc = Inr (a, attention L')"
    using f att by auto
  note c = SelfAttention_forward_caches[OF f]
  have thin: "\<forall>b < length ?x. length (?x ! b) \<le> 1" using assms(2) by simp
  have fr: "cache_frame {start} (cache_k (attention L)) (cache_k sa')"
           "cache_frame {start} (cache_v (attention L)) (cache_v sa')"
    using c(2) thin by blast+
  have "L' = L\<lparr>attention := (attention L)\<lparr>cache_k := cache_k (attention L'),
                                            cache_v := cache_v (attention L')\<rparr>\<rparr>"
    using c(1) by (simp add: L')
  then show "layer_frame {start} L L'"
    using fr att unfolding layer_frame_def by simp
  show "\<forall>row \<in> set out. length row \<le> 1"
    unfolding out by (intro tensor_add_thin assms(2))
qed

lemma layers_forward_frame:
  assumes "layers_forward ls h start fc = Inr (h', ls')"
    and "\<forall>row \<in> set h. length row \<le> (1::nat)"
  shows "length ls' = length ls
       \<and> (\<forall>l < length ls. layer_frame {start} (ls ! l) (ls' ! l))
       \<and> (ls \<noteq> [] \<longrightarrow>
            (\<exists>a. SelfAttention_forward (attention (ls ! 0))
                    (map (map (RMSNorm_forward (attention_norm (ls ! 0)))) h) start fc
                  = Inr (a, attention (ls' ! 0))))"
  using assms
proof (induction ls arbitrary: h h' ls')
  case Nil
  then show ?case by simp
next
  case (Cons L ls)
  from Cons.prems(1) obtain h1 L1 h2 rest where
      e: "EncoderBlock_forward L h start fc = Inr (h1, L1)"
      and r: "layers_forward ls h1 start fc = Inr (h2, rest)"
      and ls': "ls' = L1 # rest"
    by (auto split: sum.splits prod.splits)
  note ef = EncoderBlock_forward_frame[OF e Cons.prems(2)]
  from Cons.IH[OF r ef(2)] have ih: "length rest = length ls"
      "\<forall>l < length ls. layer_frame {start} (ls ! l) (rest ! l)"
    by simp_all
  have "\<forall>l < length (L # ls). layer_frame {start} ((L # ls) ! l) (ls' ! l)"
    using ef(1) ih(2) by (auto simp: ls' nth_Cons split: nat.splits)
  then show ?case using ih(1) ef(3) by (simp add: ls')
qed

lemma Transformer_forward_frame:
  assumes "Transformer_forward m toks start = Inr (out, m')"
    and "\<forall>row \<in> set toks. length row = 1"
  shows "model_frame {start} m m'"
    and "layers m \<noteq> [] \<longrightarrow>
          (\<forall>b < length toks.
             (start < length (cache_k (attention (layers m ! 0)) ! b) \<longrightarrow>
                first_layer_key m (toks ! b ! 0) start
                  = Inr (cache_k (attention (layers m' ! 0)) ! b ! start))
           \<and> (start < length (cache_v (attention (layers m ! 0)) ! b) \<longrightarrow>
                first_layer_value m (toks ! b ! 0)
                  = Inr (cache_v (attention (layers m' ! 0)) ! b ! start)))"
proof -
  let ?fc = "take 1 (drop start (freqs_complex m))"
  from assms(1) have s1: "shape1 toks = 1"
    by (auto simp: Transformer_forward_def Let_def split: if_splits)
  with assms(1) obtain h h' ls' where
      emb: "mapM (mapM (Embedding (tok_embeddings m))) toks = Inr h"
      and lf: "layers_forward (layers m) h start ?fc = Inr (h', ls')"
      and m': "m' = m\<lparr>layers := ls'\<rparr>"
    by (auto simp: Transformer_forward_def Let_def err_bind_eq_Inr)
  have lh: "length h = length toks"
    and hb: "\<forall>b < length toks. mapM (Embedding (tok_embeddings m)) (toks ! b) = Inr (h ! b)"
    using emb by (simp_all add: mapM_Inr_iff)
  have hrow: "length (h ! b) = 1 \<and> Embedding (tok_embeddings m) (toks ! b ! 0) = Inr (h ! b ! 0)"
    if "b < length toks" for b
  proof -
    have "length (toks ! b) = 1" using assms(2) that by simp
    moreover have "mapM (Embedding (tok_embeddings m)) (toks ! b) = Inr (h ! b)"
      using hb that by simp
    ultimately show ?thesis by (simp add: mapM_Inr_iff)
  qed
  have thin: "\<forall>row \<in> set h. length row \<le> (1::nat)"
    using hrow lh by (auto simp: in_set_conv_nth)
  note f = layers_forward_frame[OF lf thin]
  have ls: "layers m' = ls'" by (simp add: m')
  show "model_frame {start} m m'"
    using f m' unfolding model_frame_def by (simp add: ls)
  show "layers m \<noteq> [] \<longrightarrow>
          (\<forall>b < length toks.
             (start < length (cache_k (attention (layers m ! 0)) ! b) \<longrightarrow>
                first_layer_key m (toks ! b ! 0) start
                  = Inr (cache_k (attention (layers m' ! 0)) ! b ! start))
           \<and> (start < length (cache_v (attention (layers m ! 0)) ! b) \<longrightarrow>
                first_layer_value m (toks ! b ! 0)
                  = Inr (cache_v (attention (layers m' ! 0)) ! b ! start)))"
  proof (intro impI allI)
    fix b assume ne: "layers m \<noteq> []" and b: "b < length toks"
    let ?L = "layers m ! 0"
    let ?A = "attention ?L"
    let ?x = "map (map (RMSNorm_forward (attention_norm ?L))) h"
    from f ne obtain a where
        sf: "SelfAttention_forward ?A ?x start ?fc = Inr (a, attention (ls' ! 0))"
      by blast
    note c = SelfAttention_forward_caches[OF sf]
    note hr = hrow[OF b]
    have bx: "b < length ?x" "length (?x ! b) = 1"
         "?x ! b ! 0 = RMSNorm_forward (attention_norm ?L) (h ! b ! 0)"
      using b lh hr by simp_all
    have key: "first_layer_key m (toks ! b ! 0) start
                  = Inr (cache_k (attention (layers m' ! 0)) ! b ! start)"
      if cap: "start < length (cache_k ?A ! b)"
    proof -
      have "b < length ?x \<and> 0 < length (?x ! b) \<and> start + 0 < length (cache_k ?A ! b)"
        using bx cap by simp
      with c(3) obtain fs where fs: "broadcast_to (length (?x ! b)) ?fc = Inr fs"
          "mapM (\<lambda>v. rotate v (fs ! 0))
                   (view_heads (nat (sa_n_kv_heads ?A)) (nat (sa_head_dim ?A))
                      (Linear (wk ?A) (?x ! b ! 0)))
                 = Inr (cache_k (attention (ls' ! 0)) ! b ! (start + 0))"
        by blast
      have "length ?fc = 1 \<and> fs = ?fc"
        using fs(1) bx(2) by (auto simp: broadcast_to_def split: if_splits)
      then have "fs ! 0 = freqs_complex m ! start"
        by (metis One_nat_def add.right_neutral hd_conv_nth hd_drop_conv_nth length_0_conv
            length_take less_numeral_extra(1) list.size(3) min_less_iff_conj nat.simps(3)
            nth_take take_eq_Nil length_drop zero_less_diff)
      then show ?thesis
        using fs(2) hr bx(3) by (simp add: first_layer_key_def Let_def ls)
    qed
    have val: "first_layer_value m (toks ! b ! 0)
                  = Inr (cache_v (attention (layers m' ! 0)) ! b ! start)"
      if cap: "start < length (cache_v ?A ! b)"
    proof -
      have "b < length ?x \<and> 0 < length (?x ! b) \<and> start + 0 < length (cache_v ?A ! b)"
        using bx cap by simp
      with c(4) have "cache_v (attention (ls' ! 0)) ! b ! (start + 0)
             = view_heads (nat (sa_n_kv_heads ?A)) (nat (sa_head_dim ?A))
                 (Linear (wv ?A) (?x ! b ! 0))"
        by blast
      then show ?thesis
        using hr bx(3) by (simp add: first_layer_value_def Let_def ls)
    qed
    from key val show "(start < length (cache_k ?A ! b) \<longrightarrow>
                first_layer_key m (toks ! b ! 0) start
                  = Inr (cache_k (attention (layers m' ! 0)) ! b ! start))
           \<and> (start < length (cache_v ?A ! b) \<longrightarrow>
                first_layer_value m (toks ! b ! 0)
                  = Inr (cache_v (attention (layers m' ! 0)) ! b ! start))"
      by blast
  qed
qed

section \<open>Runs of \<^verbatim>\<open>text_completion\<close> on the model without layers\<close>

lemma upt_1_3: "[Suc 0..<3] = [Suc 0, 2]"
  by (simp add: upt_rec)

lemma upt_1_5: "[Suc 0..<5] = [Suc 0, 2, 3, 4]"
  by (simp add: upt_rec)

lemma chain_run_pad_in_prompt:
  "text_completion (chain_llama (IntAttr 2) 0) [[1, 0, 3]] 0 top_p (Some 0) rng
     = Inr ([[1, 3, 3]], chain_llama (IntAttr 2) 0)"
proof -
  have g: "token_grid 0 3 [[1, 0, 3]] = [[1, 0, 3]]" by (simp add: token_grid_def)
  have m: "prompt_mask 0 [[1, 0, 3]] = [[True, False, True]]" by (simp add: prompt_mask_def)
  have l: "decode_loop \<lparr>pad_id = 0, eos_id = IntAttr 2\<rparr> 0 top_p rng [[True, False, True]] [Suc 0, 2]
      \<lparr>tokens = [[1, 0, 3]], eos_reached = [False], gs_model = chain_model, gs_cur_pos = 0\<rparr>
   = Inr \<lparr>tokens = [[1, 3, 3]], eos_reached = [False], gs_model = chain_model, gs_cur_pos = 2\<rparr>"
    by (simp add: chain_step Let_def py_eq_def)
  show ?thesis
    by (simp add: text_completion_def generation_def chain_llama_def chain_args_def
        g m upt_1_3 l Let_def cut_eos_def py_eq_def del: decode_loop.simps)
qed

lemma chain_grid_1_3: "token_grid (- 1) 5 [[1, 3]] = [[1, 3, - 1, - 1, - 1]]"
  by (simp add: token_grid_def numeral_eq_Suc)

lemma chain_mask_1_3:
  "prompt_mask (- 1) [[1, 3, - 1, - 1, - 1]] = [[True, True, False, False, False]]"
  by (simp add: prompt_mask_def)

lemma chain_run_eos_method:
  "text_completion (chain_llama MethodAttr (- 1)) [[1, 3]] 0 top_p (Some 3) rng
     = Inr ([[1, 3, 2, 3, 2]], chain_llama MethodAttr (- 1))"
proof -
  have l: "decode_loop \<lparr>pad_id = - 1, eos_id = MethodAttr\<rparr> 0 top_p rng
      [[True, True, False, False, False]] [Suc 0, 2, 3, 4]
      \<lparr>tokens = [[1, 3, - 1, - 1, - 1]], eos_reached = [False], gs_model = chain_model,
       gs_cur_pos = 0\<rparr>
   = Inr \<lparr>tokens = [[1, 3, 2, 3, 2]], eos_reached = [False], gs_model = chain_model,
          gs_cur_pos = 4\<rparr>"
    by (simp add: chain_step py_eq_def Let_def)
  show ?thesis
    by (simp add: text_completion_def generation_def chain_llama_def chain_args_def
        chain_grid_1_3 chain_mask_1_3 upt_1_5 l Let_def py_eq_def cut_eos_def
        del: decode_loop.simps)
qed

lemma chain_run_eos_int:
  "text_completion (chain_llama (IntAttr 2) (- 1)) [[1, 3]] 0 top_p (Some 3) rng
     = Inr ([[1, 3]], chain_llama (IntAttr 2) (- 1))"
proof -
  have l: "decode_loop \<lparr>pad_id = - 1, eos_id = IntAttr 2\<rparr> 0 top_p rng
      [[True, True, False, False, False]] [Suc 0, 2, 3, 4]
      \<lparr>tokens = [[1, 3, - 1, - 1, - 1]], eos_reached = [False], gs_model = chain_model,
       gs_cur_pos = 0\<rparr>
   = Inr \<lparr>tokens = [[1, 3, 2, - 1, - 1]], eos_reached = [True], gs_model = chain_model,
          gs_cur_pos = 2\<rparr>"
    by (simp add: chain_step py_eq_def Let_def)
  show ?thesis
    by (simp add: text_completion_def generation_def chain_llama_def chain_args_def
        chain_grid_1_3 chain_mask_1_3 upt_1_5 l Let_def py_eq_def cut_eos_def py_index_def
        del: decode_loop.simps)
qed

lemma chain_generation_1_3:
  "generation (chain_llama MethodAttr (- 1)) [[1, 3]] 0 top_p (Some 3) rng
     = Inr \<lparr>tokens = [[1, 3, 2, 3, 2]], eos_reached = [False], gs_model = chain_model,
            gs_cur_pos = 4\<rparr>"
proof -
  have l: "decode_loop \<lparr>pad_id = - 1, eos_id = MethodAttr\<rparr> 0 top_p rng
      [[True, True, False, False, False]] [Suc 0, 2, 3, 4]
      \<lparr>tokens = [[1, 3, - 1, - 1, - 1]], eos_reached = [False], gs_model = chain_model,
       gs_cur_pos = 0\<rparr>
   = Inr \<lparr>tokens = [[1, 3, 2, 3, 2]], eos_reached = [False], gs_model = chain_model,
          gs_cur_pos = 4\<rparr>"
    by (simp add: chain_step Let_def py_eq_def)
  show ?thesis
    by (simp add: generation_def chain_llama_def chain_args_def
        chain_grid_1_3 chain_mask_1_3 upt_1_5 l Let_def del: decode_loop.simps)
qed

text \<open>
  A prompt of one token with \<^verbatim>\<open>max_gen_len = -1\<close>: \<open>total_len\<close> is 0, the prompt is broadcast to
  the empty slice, the loop runs no iteration and the empty row is returned.
\<close>

lemma chain_generation_empty_grid:
  "generation (chain_llama MethodAttr (- 1)) [[1]] 0 top_p (Some (- 1)) rng
     = Inr \<lparr>tokens = [[]], eos_reached = [False], gs_model = chain_model, gs_cur_pos = 0\<rparr>"
  by (simp add: generation_def chain_llama_def chain_args_def token_grid_def prompt_mask_def
      Let_def)

lemma chain_run_empty_grid:
  "text_completion (chain_llama MethodAttr (- 1)) [[1]] 0 top_p (Some (- 1)) rng
     = Inr ([[]], chain_llama MethodAttr (- 1))"
  unfolding text_completion_def chain_generation_empty_grid err_bind_Inr
  by (simp add: cut_eos_def chain_llama_def)


section \<open>The end marker, as an integer and as a method\<close>

lemma py_eq_method [simp]: "py_eq t MethodAttr = False"
  by (simp add: py_eq_def)

lemma py_eq_int [simp]: "py_eq t (IntAttr e) = (t = e)"
  by (simp add: py_eq_def)

lemma decode_step_eos_method:
  assumes "eos_id tk = MethodAttr"
    and "decode_step tk temperature top_p rng pmask cur_pos st = Inr st'"
    and "length (eos_reached st) = length (tokens st)"
  shows "eos_reached st' = eos_reached st"
proof -
  from decode_step_Inr[OF assms(2)] assms(1)
  have "length (eos_reached st') = length (tokens st)"
    "\<forall>b < length (tokens st). eos_reached st' ! b = eos_reached st ! b"
    by auto
  then show ?thesis using assms(3) by (intro nth_equalityI) simp_all
qed

lemma decode_loop_eos_method:
  assumes "eos_id tk = MethodAttr"
    and "decode_loop tk temperature top_p rng pmask ps st = Inr st'"
    and "length (eos_reached st) = length (tokens st)"
    and "\<not> list_all (\<lambda>e. e) (eos_reached st)"
  shows "eos_reached st' = eos_reached st \<and> (ps \<noteq> [] \<longrightarrow> gs_cur_pos st' = last ps)"
  using assms(2,3,4)
proof (induction ps arbitrary: st)
  case Nil
  then show ?case by simp
next
  case (Cons c ps)
  from Cons.prems(1) obtain st1 where s1:
      "decode_step tk temperature top_p rng pmask c st = Inr st1"
    by (auto split: sum.splits)
  have e1: "eos_reached st1 = eos_reached st"
    by (rule decode_step_eos_method[OF assms(1) s1 Cons.prems(2)])
  have l1: "length (eos_reached st1) = length (tokens st1)"
    using e1 Cons.prems(2) decode_step_tokens(1)[OF s1] by simp
  have c1: "gs_cur_pos st1 = c" using decode_step_Inr[OF s1] by auto
  have rest: "decode_loop tk temperature top_p rng pmask ps st1 = Inr st'"
    using Cons.prems(1,3) s1 e1 by simp
  from Cons.IH[OF rest l1] e1 Cons.prems(3)
  have "eos_reached st' = eos_reached st1 \<and> (ps \<noteq> [] \<longrightarrow> gs_cur_pos st' = last ps)" by simp
  moreover have "st' = st1" if "ps = []" using rest that by simp
  ultimately show ?case using e1 c1 by auto
qed

text \<open>
  When \<^verbatim>\<open>eos_id\<close> of the tokenizer is a method, no comparison with it is true: the flags
  \<^verbatim>\<open>eos_reached\<close> stay false, the loop runs through every position up to \<open>total_len - 1\<close>,
  and the returned sequences are the full rows of the token grid, each of length
  \<open>total_len\<close>, whatever tokens they hold.
\<close>

lemma text_completion_eos_method:
  assumes "eos_id (tokenizer self) = MethodAttr"
    and "text_completion self prompt_tokens temperature top_p max_gen_len rng
           = Inr (out_tokens, self')"
  shows "\<exists>st total_len.
           generation self prompt_tokens temperature top_p max_gen_len rng = Inr st
         \<and> out_tokens = tokens st
         \<and> (\<forall>row \<in> set out_tokens. length row = total_len)
         \<and> \<not> list_ex (\<lambda>e. e) (eos_reached st)
         \<and> (1 < total_len \<longrightarrow> gs_cur_pos st = total_len - 1)"
proof -
  from assms(2) obtain st where st:
      "generation self prompt_tokens temperature top_p max_gen_len rng = Inr st"
      "out_tokens = map (cut_eos (eos_id (tokenizer self))) (tokens st)"
    by (auto simp: text_completion_def err_bind_eq_Inr)
  have "cut_eos MethodAttr row = row" for row by (simp add: cut_eos_def list_ex_iff)
  then have out: "out_tokens = tokens st" using st(2) assms(1) by (simp add: map_idI)
  let ?pad = "pad_id (tokenizer self)"
  from generation_Inr[OF st(1)] obtain n where n:
      "prompt_tokens \<noteq> []"
      "\<forall>t \<in> set prompt_tokens. length t \<le> n \<or> n = 0 \<and> length t = 1"
      "decode_loop (tokenizer self) temperature top_p rng
              (prompt_mask ?pad (token_grid ?pad n prompt_tokens)) [1..<n]
              \<lparr>tokens = token_grid ?pad n prompt_tokens,
               eos_reached = replicate (length prompt_tokens) False,
               gs_model = model self, gs_cur_pos = 0\<rparr> = Inr st"
    by blast
  let ?st0 = "\<lparr>tokens = token_grid ?pad n prompt_tokens,
               eos_reached = replicate (length prompt_tokens) False,
               gs_model = model self, gs_cur_pos = 0\<rparr>"
  have nall: "\<not> list_all (\<lambda>e. e) (eos_reached ?st0)"
    using n(1) by (cases prompt_tokens) simp_all
  have "eos_reached st = eos_reached ?st0 \<and> ([1..<n] \<noteq> [] \<longrightarrow> gs_cur_pos st = last [1..<n])"
    by (rule decode_loop_eos_method[OF assms(1) n(3) _ nall]) simp
  then have flags: "\<not> list_ex (\<lambda>e. e) (eos_reached st)"
    and cur: "1 < n \<longrightarrow> gs_cur_pos st = n - 1"
    by (auto simp: list_ex_iff)
  note inv = decode_loop_tokens[OF n(3)]
  have "length row = n" if "row \<in> set (tokens st)" for row
  proof -
    from that obtain i where i: "i < length (tokens st)" "row = tokens st ! i"
      by (auto simp: in_set_conv_nth)
    then have ip: "i < length prompt_tokens" using inv by simp
    from token_grid_row_length[OF ip, of ?pad n] inv ip i show ?thesis by simp
  qed
  with st(1) out flags cur show ?thesis by blast
qed

text \<open>
  When \<^verbatim>\<open>eos_id\<close> of the tokenizer is an integer \<open>e\<close>, every returned sequence is its row
  of the token grid cut strictly before the first \<open>e\<close>.
\<close>

lemma text_completion_eos_int:
  assumes "eos_id (tokenizer self) = IntAttr e"
    and "text_completion self prompt_tokens temperature top_p max_gen_len rng
           = Inr (out_tokens, self')"
  shows "\<exists>st. generation self prompt_tokens temperature top_p max_gen_len rng = Inr st
           \<and> out_tokens = map (takeWhile (\<lambda>t. t \<noteq> e)) (tokens st)
           \<and> (\<forall>row \<in> set out_tokens. e \<notin> set row)"
proof -
  from assms(2) obtain st where st:
      "generation self prompt_tokens temperature top_p max_gen_len rng = Inr st"
      "out_tokens = map (cut_eos (eos_id (tokenizer self))) (tokens st)"
    by (auto simp: text_completion_def err_bind_eq_Inr)
  have "cut_eos (IntAttr e) row = takeWhile (\<lambda>t. t \<noteq> e) row" for row
    by (simp add: cut_eos_takeWhile)
  then have out: "out_tokens = map (takeWhile (\<lambda>t. t \<noteq> e)) (tokens st)"
    using st(2) assms(1) by simp
  have "e \<notin> set (takeWhile (\<lambda>t. t \<noteq> e) row)" for row
    by (auto dest: set_takeWhileD)
  with out st(1) show ?thesis by auto
qed

text \<open>
  The loop runs through a first part \<open>qs\<close> of the positions and leaves out the rest \<open>rs\<close>.
  A flag of \<^verbatim>\<open>eos_reached\<close> is set at the end exactly if it was set before or the row holds
  a token equal to \<^verbatim>\<open>eos_id\<close> at a position of \<open>qs\<close> that the mask does not mark as prompt;
  positions are left out only when every flag is set.
\<close>

lemma decode_loop_stop:
  assumes "decode_loop tk temperature top_p rng pmask ps st = Inr st'"
    and "distinct ps"
    and "length (eos_reached st) = length (tokens st)"
    and "\<forall>b < length (tokens st). \<forall>c \<in> set ps. c < length (tokens st ! b)"
  shows "\<exists>qs rs. ps = qs @ rs
           \<and> (ps \<noteq> [] \<longrightarrow> qs \<noteq> [] \<and> gs_cur_pos st' = last qs)
           \<and> (rs \<noteq> [] \<longrightarrow> list_all (\<lambda>e. e) (eos_reached st'))
           \<and> (\<forall>b < length (tokens st). \<forall>j. j \<notin> set qs \<longrightarrow> tokens st' ! b ! j = tokens st ! b ! j)
           \<and> (\<forall>b < length (tokens st).
                 eos_reached st' ! b =
                   (eos_reached st ! b
                    \<or> (\<exists>c \<in> set qs. \<not> pmask ! b ! c \<and> py_eq (tokens st' ! b ! c) (eos_id tk))))"
  using assms
proof (induction ps arbitrary: st)
  case Nil
  then show ?case by simp
next
  case (Cons c ps)
  let ?B = "length (tokens st)"
  from Cons.prems(1) obtain st1 where s1:
      "decode_step tk temperature top_p rng pmask c st = Inr st1"
    by (auto split: sum.splits)
  from decode_step_Inr[OF s1] obtain next_token where st1:
      "gs_cur_pos st1 = c" "length (tokens st1) = ?B" "length (eos_reached st1) = ?B"
      "\<forall>b < ?B. tokens st1 ! b = (tokens st ! b)[c :=
                    (if pmask ! b ! c then tokens st ! b ! c else next_token ! b)]
             \<and> eos_reached st1 ! b = (eos_reached st ! b
                    \<or> (\<not> pmask ! b ! c \<and> py_eq (next_token ! b) (eos_id tk)))"
    by auto
  have tc: "tokens st1 ! b ! c = (if pmask ! b ! c then tokens st ! b ! c else next_token ! b)"
    if "b < ?B" for b
    using st1(4) that Cons.prems(4) by simp
  have other: "tokens st1 ! b ! j = tokens st ! b ! j" if "b < ?B" "j \<noteq> c" for b j
    using st1(4) that by simp
  have fl: "eos_reached st1 ! b =
              (eos_reached st ! b \<or> (\<not> pmask ! b ! c \<and> py_eq (tokens st1 ! b ! c) (eos_id tk)))"
    if "b < ?B" for b
    using st1(4) tc that by auto
  show ?case
  proof (cases "list_all (\<lambda>e. e) (eos_reached st1)")
    case True
    then have "st' = st1" using Cons.prems(1) s1 by simp
    then have "c # ps = [c] @ ps
           \<and> (c # ps \<noteq> [] \<longrightarrow> [c] \<noteq> [] \<and> gs_cur_pos st' = last [c])
           \<and> (ps \<noteq> [] \<longrightarrow> list_all (\<lambda>e. e) (eos_reached st'))
           \<and> (\<forall>b < ?B. \<forall>j. j \<notin> set [c] \<longrightarrow> tokens st' ! b ! j = tokens st ! b ! j)
           \<and> (\<forall>b < ?B. eos_reached st' ! b =
                   (eos_reached st ! b
                    \<or> (\<exists>c' \<in> set [c]. \<not> pmask ! b ! c' \<and> py_eq (tokens st' ! b ! c') (eos_id tk))))"
      using True st1(1) other fl by simp
    then show ?thesis by blast
  next
    case False
    then have rest: "decode_loop tk temperature top_p rng pmask ps st1 = Inr st'"
      using Cons.prems(1) s1 by simp
    have d: "distinct ps" "c \<notin> set ps" using Cons.prems(2) by simp_all
    have l1: "length (eos_reached st1) = length (tokens st1)" using st1 by simp
    have rows: "\<forall>b < length (tokens st1). \<forall>c' \<in> set ps. c' < length (tokens st1 ! b)"
      using Cons.prems(4) st1(2,4) by simp
    from Cons.IH[OF rest d(1) l1 rows] obtain qs rs where q:
        "ps = qs @ rs" "ps \<noteq> [] \<longrightarrow> qs \<noteq> [] \<and> gs_cur_pos st' = last qs"
        "rs \<noteq> [] \<longrightarrow> list_all (\<lambda>e. e) (eos_reached st')"
        "\<forall>b < ?B. \<forall>j. j \<notin> set qs \<longrightarrow> tokens st' ! b ! j = tokens st1 ! b ! j"
        "\<forall>b < ?B. eos_reached st' ! b =
                   (eos_reached st1 ! b
                    \<or> (\<exists>c' \<in> set qs. \<not> pmask ! b ! c' \<and> py_eq (tokens st' ! b ! c') (eos_id tk)))"
      using st1(2) by auto
    have cq: "c \<notin> set qs" using d(2) q(1) by simp
    have nil: "st' = st1" if "ps = []" using rest that by simp
    have a: "c # ps = (c # qs) @ rs" using q(1) by simp
    have b: "gs_cur_pos st' = last (c # qs)"
      using q(2) nil st1(1) q(1) by (cases "ps = []") auto
    have e: "\<forall>b < ?B. \<forall>j. j \<notin> set (c # qs) \<longrightarrow> tokens st' ! b ! j = tokens st ! b ! j"
      using q(4) other by simp
    have f: "\<forall>b < ?B. eos_reached st' ! b =
                   (eos_reached st ! b
                    \<or> (\<exists>c' \<in> set (c # qs). \<not> pmask ! b ! c' \<and> py_eq (tokens st' ! b ! c') (eos_id tk)))"
    proof (intro allI impI)
      fix b assume bb: "b < ?B"
      have "tokens st' ! b ! c = tokens st1 ! b ! c" using q(4) bb cq by simp
      then show "eos_reached st' ! b =
                   (eos_reached st ! b
                    \<or> (\<exists>c' \<in> set (c # qs). \<not> pmask ! b ! c' \<and> py_eq (tokens st' ! b ! c') (eos_id tk)))"
        using q(5) fl[OF bb] bb by auto
    qed
    from a b q(3) e f show ?thesis by blast
  qed
qed

section \<open>What the decoding loop does to the caches\<close>

lemma decode_step_model:
  assumes "decode_step tk temperature top_p rng pmask c st = Inr st'"
    and "\<forall>b < length (tokens st). c - 1 < length (tokens st ! b)"
  shows "model_frame {c} (gs_model st) (gs_model st')"
    and "layers (gs_model st) \<noteq> [] \<longrightarrow>
          (\<forall>b < length (tokens st).
             (c < length (cache_k (attention (layers (gs_model st) ! 0)) ! b) \<longrightarrow>
                first_layer_key (gs_model st) (tokens st ! b ! (c - 1)) c
                  = Inr (cache_k (attention (layers (gs_model st') ! 0)) ! b ! c))
           \<and> (c < length (cache_v (attention (layers (gs_model st) ! 0)) ! b) \<longrightarrow>
                first_layer_value (gs_model st) (tokens st ! b ! (c - 1))
                  = Inr (cache_v (attention (layers (gs_model st') ! 0)) ! b ! c)))"
proof -
  let ?toks = "map (\<lambda>row. take 1 (drop (c - 1) row)) (tokens st)"
  from decode_step_Inr[OF assms(1)] obtain logits where
      f: "Transformer_forward (gs_model st) ?toks c = Inr (logits, gs_model st')"
    by auto
  have rows: "\<forall>row \<in> set ?toks. length row = 1"
  proof
    fix row assume "row \<in> set ?toks"
    then obtain r where r: "r \<in> set (tokens st)" "row = take 1 (drop (c - 1) r)" by auto
    then obtain b where "b < length (tokens st)" "r = tokens st ! b"
      by (auto simp: in_set_conv_nth)
    then have "c - 1 < length r" using assms(2) by simp
    then show "length row = 1" using r(2) by simp
  qed
  have t0: "?toks ! b ! 0 = tokens st ! b ! (c - 1)" if "b < length (tokens st)" for b
  proof -
    have "c - 1 < length (tokens st ! b)" using that assms(2) by simp
    then have "drop (c - 1) (tokens st ! b) ! 0 = tokens st ! b ! (c - 1)"
      by (simp add: nth_drop)
    then show ?thesis using that by simp
  qed
  note fr = Transformer_forward_frame[OF f rows]
  show "model_frame {c} (gs_model st) (gs_model st')" by (rule fr(1))
  show "layers (gs_model st) \<noteq> [] \<longrightarrow>
          (\<forall>b < length (tokens st).
             (c < length (cache_k (attention (layers (gs_model st) ! 0)) ! b) \<longrightarrow>
                first_layer_key (gs_model st) (tokens st ! b ! (c - 1)) c
                  = Inr (cache_k (attention (layers (gs_model st') ! 0)) ! b ! c))
           \<and> (c < length (cache_v (attention (layers (gs_model st) ! 0)) ! b) \<longrightarrow>
                first_layer_value (gs_model st) (tokens st ! b ! (c - 1))
                  = Inr (cache_v (attention (layers (gs_model st') ! 0)) ! b ! c)))"
  proof (intro impI allI)
    fix b assume ne: "layers (gs_model st) \<noteq> []" and b: "b < length (tokens st)"
    then have "b < length ?toks" by simp
    with fr(2) ne show "(c < length (cache_k (attention (layers (gs_model st) ! 0)) ! b) \<longrightarrow>
                first_layer_key (gs_model st) (tokens st ! b ! (c - 1)) c
                  = Inr (cache_k (attention (layers (gs_model st') ! 0)) ! b ! c))
           \<and> (c < length (cache_v (attention (layers (gs_model st) ! 0)) ! b) \<longrightarrow>
                first_layer_value (gs_model st) (tokens st ! b ! (c - 1))
                  = Inr (cache_v (attention (layers (gs_model st') ! 0)) ! b ! c))"
      unfolding t0[OF b, symmetric] by blast
  qed
qed


lemma decode_loop_cur_pos:
  assumes "decode_loop tk temperature top_p rng pmask ps st = Inr st'" "ps \<noteq> []"
  shows "gs_cur_pos st' \<in> set ps"
  using assms
proof (induction ps arbitrary: st)
  case Nil
  then show ?case by simp
next
  case (Cons c ps)
  from Cons.prems(1) obtain st1 where s1:
      "decode_step tk temperature top_p rng pmask c st = Inr st1"
    by (auto split: sum.splits)
  have c1: "gs_cur_pos st1 = c" using decode_step_Inr[OF s1] by auto
  show ?case
  proof (cases "list_all (\<lambda>e. e) (eos_reached st1) \<or> ps = []")
    case True
    then have "st' = st1" using Cons.prems(1) s1 by (auto split: if_splits)
    then show ?thesis using c1 by simp
  next
    case False
    then have "decode_loop tk temperature top_p rng pmask ps st1 = Inr st'"
      using Cons.prems(1) s1 by simp
    from Cons.IH[OF this] False show ?thesis by simp
  qed
qed

lemma decode_loop_caches:
  assumes "decode_loop tk temperature top_p rng pmask ps st = Inr st'"
    and "sorted_wrt (<) ps" and "\<forall>c \<in> set ps. 0 < c"
    and "\<forall>b < length (tokens st). \<forall>c \<in> set ps. c < length (tokens st ! b)"
  shows "\<exists>qs rs. ps = qs @ rs
           \<and> (ps \<noteq> [] \<longrightarrow> qs \<noteq> [] \<and> gs_cur_pos st' = last qs)
           \<and> model_frame (set qs) (gs_model st) (gs_model st')
           \<and> (layers (gs_model st) \<noteq> [] \<longrightarrow>
                (\<forall>c \<in> set qs. \<forall>b < length (tokens st).
                   (b < length (cache_k (attention (layers (gs_model st) ! 0)))
                      \<and> c < length (cache_k (attention (layers (gs_model st) ! 0)) ! b) \<longrightarrow>
                      first_layer_key (gs_model st) (tokens st' ! b ! (c - 1)) c
                        = Inr (cache_k (attention (layers (gs_model st') ! 0)) ! b ! c))
                 \<and> (b < length (cache_v (attention (layers (gs_model st) ! 0)))
                      \<and> c < length (cache_v (attention (layers (gs_model st) ! 0)) ! b) \<longrightarrow>
                      first_layer_value (gs_model st) (tokens st' ! b ! (c - 1))
                        = Inr (cache_v (attention (layers (gs_model st') ! 0)) ! b ! c))))"
  using assms
proof (induction ps arbitrary: st)
  case Nil
  then show ?case by simp
next
  case (Cons c ps)
  let ?B = "length (tokens st)"
  let ?m = "gs_model st"
  let ?K = "\<lambda>m. cache_k (attention (layers m ! 0))"
  let ?V = "\<lambda>m. cache_v (attention (layers m ! 0))"
  from Cons.prems(1) obtain st1 where s1:
      "decode_step tk temperature top_p rng pmask c st = Inr st1"
    by (auto split: sum.splits)
  have cpos: "0 < c" and later: "\<forall>c' \<in> set ps. c < c'" and srt: "sorted_wrt (<) ps"
    using Cons.prems(2,3) by simp_all
  have rows: "\<forall>b < ?B. c - 1 < length (tokens st ! b)"
    using Cons.prems(4) by (auto intro: less_imp_diff_less)
  note sm = decode_step_model[OF s1 rows]
  note tk1 = decode_step_tokens[OF s1]
  have c1: "gs_cur_pos st1 = c" using decode_step_Inr[OF s1] by auto
  have prev1: "tokens st1 ! b ! (c - 1) = tokens st ! b ! (c - 1)" if "b < ?B" for b
    using tk1(3) that cpos by simp
  have one: "layers ?m \<noteq> [] \<longrightarrow>
          (\<forall>b < ?B.
             (c < length (?K ?m ! b) \<longrightarrow>
                first_layer_key ?m (tokens st1 ! b ! (c - 1)) c = Inr (?K (gs_model st1) ! b ! c))
           \<and> (c < length (?V ?m ! b) \<longrightarrow>
                first_layer_value ?m (tokens st1 ! b ! (c - 1)) = Inr (?V (gs_model st1) ! b ! c)))"
    using sm(2) prev1 by simp
  show ?case
  proof (cases "list_all (\<lambda>e. e) (eos_reached st1) \<or> ps = []")
    case True
    then have e: "st' = st1" using Cons.prems(1) s1 by (auto split: if_splits)
    have "c # ps = [c] @ ps
           \<and> (c # ps \<noteq> [] \<longrightarrow> [c] \<noteq> [] \<and> gs_cur_pos st' = last [c])
           \<and> model_frame (set [c]) ?m (gs_model st')
           \<and> (layers ?m \<noteq> [] \<longrightarrow>
                (\<forall>c' \<in> set [c]. \<forall>b < ?B.
                   (b < length (?K ?m) \<and> c' < length (?K ?m ! b) \<longrightarrow>
                      first_layer_key ?m (tokens st' ! b ! (c' - 1)) c'
                        = Inr (?K (gs_model st') ! b ! c'))
                 \<and> (b < length (?V ?m) \<and> c' < length (?V ?m ! b) \<longrightarrow>
                      first_layer_value ?m (tokens st' ! b ! (c' - 1))
                        = Inr (?V (gs_model st') ! b ! c'))))"
      using sm(1) one c1 by (simp add: e)
    then show ?thesis by blast
  next
    case False
    then have rest: "decode_loop tk temperature top_p rng pmask ps st1 = Inr st'"
        and ne: "ps \<noteq> []"
      using Cons.prems(1) s1 by simp_all
    have pos': "\<forall>c' \<in> set ps. 0 < c'" using Cons.prems(3) by simp
    have rows': "\<forall>b < length (tokens st1). \<forall>c' \<in> set ps. c' < length (tokens st1 ! b)"
      using Cons.prems(4) tk1(1,2) by simp
    from Cons.IH[OF rest srt pos' rows'] obtain qs rs where q:
        "ps = qs @ rs" "qs \<noteq> [] \<and> gs_cur_pos st' = last qs"
        "model_frame (set qs) (gs_model st1) (gs_model st')"
        "layers (gs_model st1) \<noteq> [] \<longrightarrow>
                (\<forall>c' \<in> set qs. \<forall>b < length (tokens st1).
                   (b < length (?K (gs_model st1)) \<and> c' < length (?K (gs_model st1) ! b) \<longrightarrow>
                      first_layer_key (gs_model st1) (tokens st' ! b ! (c' - 1)) c'
                        = Inr (?K (gs_model st') ! b ! c'))
                 \<and> (b < length (?V (gs_model st1)) \<and> c' < length (?V (gs_model st1) ! b) \<longrightarrow>
                      first_layer_value (gs_model st1) (tokens st' ! b ! (c' - 1))
                        = Inr (?V (gs_model st') ! b ! c')))"
      using ne by blast
    have cq: "c \<notin> set qs" "c - 1 \<notin> set ps"
    proof -
      show "c \<notin> set qs" using later q(1) by auto
      show "c - 1 \<notin> set ps"
      proof
        assume "c - 1 \<in> set ps"
        then have "c < c - 1" using later by blast
        then show False by simp
      qed
    qed
    have mf: "model_frame (set (c # qs)) ?m (gs_model st')"
      using model_frame_trans[OF sm(1) q(3)] by simp
    have lt: "tokens st' ! b ! (c - 1) = tokens st1 ! b ! (c - 1)" if "b < ?B" for b
      using decode_loop_tokens[OF rest] that tk1(1) cq(2) by simp
    have a: "c # ps = (c # qs) @ rs" using q(1) by simp
    have b: "c # qs \<noteq> [] \<and> gs_cur_pos st' = last (c # qs)" using q(2) by simp
    have content: "(b < length (?K ?m) \<and> c' < length (?K ?m ! b) \<longrightarrow>
                      first_layer_key ?m (tokens st' ! b ! (c' - 1)) c'
                        = Inr (?K (gs_model st') ! b ! c'))
                 \<and> (b < length (?V ?m) \<and> c' < length (?V ?m ! b) \<longrightarrow>
                      first_layer_value ?m (tokens st' ! b ! (c' - 1))
                        = Inr (?V (gs_model st') ! b ! c'))"
      if lne: "layers ?m \<noteq> []" and c': "c' \<in> set (c # qs)" and bb: "b < ?B" for c' b
    proof -
      have l0: "0 < length (layers ?m)" using lne by simp
      have lf1: "layer_frame {c} (layers ?m ! 0) (layers (gs_model st1) ! 0)"
        using sm(1) l0 by (simp add: model_frame_def)
      have ne1: "layers (gs_model st1) \<noteq> []" using sm(1) lne by (auto simp: model_frame_def)
      have l1: "0 < length (layers (gs_model st1))" using ne1 by simp
      have lf2: "layer_frame (set qs) (layers (gs_model st1) ! 0) (layers (gs_model st') ! 0)"
        using q(3) l1 by (simp add: model_frame_def)
      have kf1: "cache_frame {c} (?K ?m) (?K (gs_model st1))"
        and vf1: "cache_frame {c} (?V ?m) (?V (gs_model st1))"
        using lf1 by (simp_all add: layer_frame_def)
      have kf2: "cache_frame (set qs) (?K (gs_model st1)) (?K (gs_model st'))"
        and vf2: "cache_frame (set qs) (?V (gs_model st1)) (?V (gs_model st'))"
        using lf2 by (simp_all add: layer_frame_def)
      show ?thesis
      proof (cases "c' = c")
        case True
        have k: "first_layer_key ?m (tokens st' ! b ! (c - 1)) c = Inr (?K (gs_model st') ! b ! c)"
          if h: "b < length (?K ?m) \<and> c < length (?K ?m ! b)"
        proof -
          have "first_layer_key ?m (tokens st1 ! b ! (c - 1)) c = Inr (?K (gs_model st1) ! b ! c)"
            using one lne bb h by blast
          moreover have "?K (gs_model st') ! b ! c = ?K (gs_model st1) ! b ! c"
            using kf2 kf1 h cq(1) by (simp add: cache_frame_def)
          ultimately show ?thesis using lt[OF bb] by simp
        qed
        have v: "first_layer_value ?m (tokens st' ! b ! (c - 1)) = Inr (?V (gs_model st') ! b ! c)"
          if h: "b < length (?V ?m) \<and> c < length (?V ?m ! b)"
        proof -
          have "first_layer_value ?m (tokens st1 ! b ! (c - 1)) = Inr (?V (gs_model st1) ! b ! c)"
            using one lne bb h by blast
          moreover have "?V (gs_model st') ! b ! c = ?V (gs_model st1) ! b ! c"
            using vf2 vf1 h cq(1) by (simp add: cache_frame_def)
          ultimately show ?thesis using lt[OF bb] by simp
        qed
        from k v True show ?thesis by blast
      next
        case False
        then have cq': "c' \<in> set qs" using c' by simp
        have b1: "b < length (tokens st1)" using bb tk1(1) by simp
        note fl = model_frame_first_layer[OF sm(1)]
        have shk: "length (?K (gs_model st1)) = length (?K ?m)"
            "b < length (?K ?m) \<Longrightarrow> length (?K (gs_model st1) ! b) = length (?K ?m ! b)"
          using kf1 by (simp_all add: cache_frame_def)
        have shv: "length (?V (gs_model st1)) = length (?V ?m)"
            "b < length (?V ?m) \<Longrightarrow> length (?V (gs_model st1) ! b) = length (?V ?m ! b)"
          using vf1 by (simp_all add: cache_frame_def)
        from q(4) ne1 cq' b1 have
          "(b < length (?K (gs_model st1)) \<and> c' < length (?K (gs_model st1) ! b) \<longrightarrow>
                      first_layer_key (gs_model st1) (tokens st' ! b ! (c' - 1)) c'
                        = Inr (?K (gs_model st') ! b ! c'))
                 \<and> (b < length (?V (gs_model st1)) \<and> c' < length (?V (gs_model st1) ! b) \<longrightarrow>
                      first_layer_value (gs_model st1) (tokens st' ! b ! (c' - 1))
                        = Inr (?V (gs_model st') ! b ! c'))"
          by blast
        then show ?thesis using shk shv fl by auto
      qed
    qed
    from a b mf content show ?thesis by blast
  qed
qed

section \<open>Runs of the model with one layer\<close>

lemma tiny_table: "theta_pos_freq 2 6 10000 = map (\<lambda>mi. [polar 1 (real mi)]) [0, 1, 2, 3, 4, 5]"
proof -
  have "theta_pos_freq 2 6 10000 = map (\<lambda>mi. [polar 1 (real mi)]) [0..<6]"
    by (simp add: theta_pos_freq_def Let_def)
  also have "[0..<6] = [0, 1, 2, 3, 4, 5::nat]" by (simp add: upt_rec)
  finally show ?thesis .
qed

lemma tiny_rows:
  "take (Suc 0) (drop (Suc 0) (theta_pos_freq 2 6 10000)) = [[polar 1 1]]"
  "take (Suc 0) (drop 2 (theta_pos_freq 2 6 10000)) = [[polar 1 2]]"
  "theta_pos_freq 2 6 10000 ! 1 = [polar 1 1]"
  "theta_pos_freq 2 6 10000 ! 2 = [polar 1 2]"
  by (simp_all add: tiny_table)

lemma tiny_rms:
  "RMSNorm_forward \<lparr>eps = 1 / 2, weight = [1, 1]\<rparr> [0, 1] = [0, 1]"
  "RMSNorm_forward \<lparr>eps = 1 / 2, weight = [1, 1]\<rparr> [1, 0] = [1, 0]"
  by (simp_all add: RMSNorm_forward_def RMSNorm_norm_def mean_def)

lemma tiny_rotate:
  "rotate [0, 0] [polar 1 a] = Inr [0, 0]"
  "rotate [0, 1] [polar 1 a] = Inr [- sin a, cos a]"
  "rotate [1, 0] [polar 1 a] = Inr [cos a, sin a]"
  by (simp_all add: rotate_def broadcast_to_def view_as_real_def polar_def)

lemma tiny_att1:
  "SelfAttention_forward (tiny_attention zero_cache zero_cache) [[[0, 1]]] (Suc 0) [[polar 1 1]]
     = Inr ([[[0, 0]]],
            tiny_attention [[[[0, 0]], [[- sin 1, cos 1]], [[0, 0]]]]
                           [[[[0, 0]], [[2, 4]], [[0, 0]]]])"
  by (simp add: SelfAttention_forward_def tiny_attention_def zero_cache_def shape1_def
      Linear_def dot_def view_heads_def rotary_embeddings_def broadcast_to_def tiny_rotate
      cache_write_def repeat_kv_def attention_row_def attend_def softmax_def Let_def)

lemma tiny_att2:
  "SelfAttention_forward (tiny_attention [[[[0, 0]], [[- sin 1, cos 1]], [[0, 0]]]]
                           [[[[0, 0]], [[2, 4]], [[0, 0]]]]) [[[1, 0]]] 2 [[polar 1 2]]
     = Inr ([[[0, 0]]],
            tiny_attention [[[[0, 0]], [[- sin 1, cos 1]], [[cos 2, sin 2]]]]
                           [[[[0, 0]], [[2, 4]], [[1, 3]]]])"
  by (simp add: SelfAttention_forward_def tiny_attention_def shape1_def
      Linear_def dot_def view_heads_def rotary_embeddings_def broadcast_to_def tiny_rotate
      cache_write_def repeat_kv_def attention_row_def attend_def softmax_def Let_def)

lemma tiny_ffn:
  "FeedForward_forward \<lparr>w1 = replicate 5 [0, 0], w2 = replicate 2 (replicate 5 0),
                          w3 = replicate 5 [0, 0]\<rparr> v = [0, 0]"
  by (simp add: FeedForward_forward_def Linear_def dot_def silu_def numeral_eq_Suc)

lemma tiny_forward1:
  "Transformer_forward (tiny_model zero_cache zero_cache) [[1]] (Suc 0)
     = Inr ([[[1, 0]]], tiny_model [[[[0, 0]], [[- sin 1, cos 1]], [[0, 0]]]]
                                   [[[[0, 0]], [[2, 4]], [[0, 0]]]])"
  by (simp add: Transformer_forward_def tiny_model_def shape1_def Embedding_def tiny_rows
      EncoderBlock_forward_def tiny_rms tiny_att1 tiny_ffn tensor_add_def Linear_def dot_def
      Let_def)

lemma tiny_forward2:
  "Transformer_forward (tiny_model [[[[0, 0]], [[- sin 1, cos 1]], [[0, 0]]]]
                                   [[[[0, 0]], [[2, 4]], [[0, 0]]]]) [[0]] 2
     = Inr ([[[0, 1]]], tiny_model [[[[0, 0]], [[- sin 1, cos 1]], [[cos 2, sin 2]]]]
                                   [[[[0, 0]], [[2, 4]], [[1, 3]]]])"
  by (simp add: Transformer_forward_def tiny_model_def shape1_def Embedding_def tiny_rows
      EncoderBlock_forward_def tiny_rms tiny_att2 tiny_ffn tensor_add_def Linear_def dot_def
      Let_def)

lemma tiny_generation:
  "generation tiny_llama [[1]] 0 top_p (Some 2) rng
     = Inr \<lparr>tokens = [[1, 0, 1]], eos_reached = [False],
            gs_model = tiny_model [[[[0, 0]], [[- sin 1, cos 1]], [[cos 2, sin 2]]]]
                                  [[[[0, 0]], [[2, 4]], [[1, 3]]]],
            gs_cur_pos = 2\<rparr>"
proof -
  have g: "token_grid (- 1) 3 [[1]] = [[1, - 1, - 1]]"
    by (simp add: token_grid_def numeral_eq_Suc)
  have m: "prompt_mask (- 1) [[1, - 1, - 1]] = [[True, False, False]]"
    by (simp add: prompt_mask_def)
  have a: "argmax [1, 0] = Inr 0" "argmax [0, 1] = Inr 1" by (simp_all add: argmax_def)
  have s1: "decode_step \<lparr>pad_id = - 1, eos_id = MethodAttr\<rparr> 0 top_p rng [[True, False, False]]
        (Suc 0) \<lparr>tokens = [[1, - 1, - 1]], eos_reached = [False],
                 gs_model = tiny_model zero_cache zero_cache, gs_cur_pos = 0\<rparr>
      = Inr \<lparr>tokens = [[1, 0, - 1]], eos_reached = [False],
             gs_model = tiny_model [[[[0, 0]], [[- sin 1, cos 1]], [[0, 0]]]]
                                   [[[[0, 0]], [[2, 4]], [[0, 0]]]],
             gs_cur_pos = Suc 0\<rparr>"
    by (simp add: decode_step_def tiny_forward1 sample_next_def a Let_def)
  have s2: "decode_step \<lparr>pad_id = - 1, eos_id = MethodAttr\<rparr> 0 top_p rng [[True, False, False]]
        2 \<lparr>tokens = [[1, 0, - 1]], eos_reached = [False],
             gs_model = tiny_model [[[[0, 0]], [[- sin 1, cos 1]], [[0, 0]]]]
                                   [[[[0, 0]], [[2, 4]], [[0, 0]]]],
             gs_cur_pos = Suc 0\<rparr>
      = Inr \<lparr>tokens = [[1, 0, 1]], eos_reached = [False],
             gs_model = tiny_model [[[[0, 0]], [[- sin 1, cos 1]], [[cos 2, sin 2]]]]
                                   [[[[0, 0]], [[2, 4]], [[1, 3]]]],
             gs_cur_pos = 2\<rparr>"
    by (simp add: decode_step_def tiny_forward2 sample_next_def a Let_def)
  show ?thesis
    by (simp add: generation_def tiny_llama_def tiny_args_def g m upt_1_3 s1 s2 Let_def)
qed

lemma upt_prefix_set:
  assumes "[a..<n] = qs @ rs" "qs \<noteq> []"
  shows "set qs = {a..last qs}"
proof -
  have pos: "0 < length qs" using assms(2) by simp
  have "length [a..<n] = length qs + length rs" using assms(1) by (metis length_append)
  then have "n - a = length qs + length rs" by simp
  then have len: "a + length qs \<le> n" using pos by linarith
  have "qs = take (length qs) [a..<n]" using assms(1) by simp
  also have "\<dots> = [a..<a + length qs]" using len by (rule take_upt)
  finally have q: "qs = [a..<a + length qs]" .
  have "last qs = last [a..<a + length qs]" using q by simp
  also have "\<dots> = a + length qs - 1" using pos by (simp add: last_upt)
  finally have l: "last qs = a + length qs - 1" .
  have "set qs = set [a..<a + length qs]" using q by simp
  also have "\<dots> = {a..<a + length qs}" by simp
  also have "\<dots> = {a..a + length qs - 1}"
  proof -
    obtain k where k: "length qs = Suc k" using pos by (cases "length qs") simp_all
    show ?thesis unfolding k by (simp add: atLeastLessThanSuc_atLeastAtMost)
  qed
  finally show ?thesis using l by simp
qed


section \<open>One call of the attention layer for one position\<close>

lemma repeat_kv_nth:
  "b < length X \<Longrightarrow> repeat_kv X n ! b = hd (repeat_kv [X ! b] n)"
  by (simp add: repeat_kv_def)

lemma repeat_kv_length: "length (repeat_kv X n) = length X"
  by (simp add: repeat_kv_def)

lemma attention_row_nth:
  "s < length qs \<Longrightarrow> attention_row nq hdim qs K V ! s = hd (attention_row nq hdim [qs ! s] K V)"
  by (simp add: attention_row_def)

lemma SelfAttention_forward_output:
  assumes "SelfAttention_forward sa x start fc = Inr (out, sa')"
    and "b < length x" and "s < length (x ! b)"
  shows "\<exists>fs q. broadcast_to (length (x ! b)) fc = Inr fs
           \<and> mapM (\<lambda>h. rotate h (fs ! s))
                (view_heads (nat (sa_n_heads_q sa)) (nat (sa_head_dim sa))
                   (Linear (wq sa) (x ! b ! s))) = Inr q
           \<and> out ! b ! s = attention_output sa q
                              (take (start + shape1 x) (cache_k sa' ! b))
                              (take (start + shape1 x) (cache_v sa' ! b))"
proof -
  let ?qx = "map (map (view_heads (nat (sa_n_heads_q sa)) (nat (sa_head_dim sa))))
                        (map (map (Linear (wq sa))) x)"
  let ?T = "start + shape1 x"
  let ?cks = "repeat_kv (map (take ?T) (take (length x) (cache_k sa'))) (nat (sa_n_rep sa))"
  let ?cvs = "repeat_kv (map (take ?T) (take (length x) (cache_v sa'))) (nat (sa_n_rep sa))"
  from SelfAttention_forward_Inr[OF assms(1)] obtain xq xk where
      rq: "rotary_embeddings ?qx fc = Inr xq"
      and ck: "cache_write (cache_k sa) start xk = Inr (cache_k sa')"
      and cv: "cache_write (cache_v sa) start
                (map (map (view_heads (nat (sa_n_kv_heads sa)) (nat (sa_head_dim sa))))
                        (map (map (Linear (wv sa))) x)) = Inr (cache_v sa')"
      and rk: "rotary_embeddings (map (map (view_heads (nat (sa_n_kv_heads sa)) (nat (sa_head_dim sa))))
                        (map (map (Linear (wk sa))) x)) fc = Inr xk"
      and out: "out = map (\<lambda>(q, k, v). map (Linear (wo sa))
                          (attention_row (nat (sa_n_heads_q sa)) (nat (sa_head_dim sa)) q k v))
                    (zip xq (zip ?cks ?cvs))"
    by blast
  note re = rotary_embeddings_Inr[OF rq]
  have lq: "length xq = length x" using re(1) by simp
  have bq: "b < length ?qx" "length (?qx ! b) = length (x ! b)"
       "?qx ! b ! s = view_heads (nat (sa_n_heads_q sa)) (nat (sa_head_dim sa))
                   (Linear (wq sa) (x ! b ! s))"
    using assms(2,3) by simp_all
  have "\<exists>fs. broadcast_to (length (?qx ! b)) fc = Inr fs
            \<and> length (xq ! b) = length (?qx ! b)
            \<and> (\<forall>s < length (?qx ! b). mapM (\<lambda>v. rotate v (fs ! s)) (?qx ! b ! s) = Inr (xq ! b ! s))"
    using re(2) bq(1) by blast
  then obtain fs where fs: "broadcast_to (length (x ! b)) fc = Inr fs"
      "length (xq ! b) = length (x ! b)"
      "\<forall>s < length (x ! b). mapM (\<lambda>v. rotate v (fs ! s)) (?qx ! b ! s) = Inr (xq ! b ! s)"
    unfolding bq(2) by blast
  have q: "mapM (\<lambda>h. rotate h (fs ! s))
                (view_heads (nat (sa_n_heads_q sa)) (nat (sa_head_dim sa))
                   (Linear (wq sa) (x ! b ! s))) = Inr (xq ! b ! s)"
    using fs(3)[rule_format, OF assms(3)] by (simp only: bq(3))
  have lk: "length (xk) = length x" using rotary_embeddings_Inr(1)[OF rk] by simp
  have bk: "b < length (cache_k sa')" "b < length (cache_v sa')"
    using cache_write_Inr(1,2)[OF ck] cache_write_Inr(1,2)[OF cv] lk assms(2) by simp_all
  have lx: "length x \<le> length (cache_k sa')" "length x \<le> length (cache_v sa')"
    using cache_write_Inr(1,2)[OF ck] cache_write_Inr(1,2)[OF cv] lk by simp_all
  have keys: "?cks ! b = hd (repeat_kv [take ?T (cache_k sa' ! b)] (nat (sa_n_rep sa)))"
    using assms(2) lx by (simp add: repeat_kv_nth)
  have vals: "?cvs ! b = hd (repeat_kv [take ?T (cache_v sa' ! b)] (nat (sa_n_rep sa)))"
    using assms(2) lx by (simp add: repeat_kv_nth)
  have lz: "b < length (zip xq (zip ?cks ?cvs))"
    using lq lx assms(2) by (simp add: repeat_kv_length)
  have "out ! b = map (Linear (wo sa))
          (attention_row (nat (sa_n_heads_q sa)) (nat (sa_head_dim sa)) (xq ! b)
             (?cks ! b) (?cvs ! b))"
    unfolding out using lz lq lx assms(2) by (simp add: repeat_kv_length)
  then have "out ! b ! s = Linear (wo sa)
          (attention_row (nat (sa_n_heads_q sa)) (nat (sa_head_dim sa)) (xq ! b)
             (?cks ! b) (?cvs ! b) ! s)"
    using fs(2) assms(3) by (simp add: attention_row_def)
  also have "\<dots> = attention_output sa (xq ! b ! s) (take ?T (cache_k sa' ! b))
                              (take ?T (cache_v sa' ! b))"
    using fs(2) assms(3) by (simp add: attention_output_def attention_row_nth keys vals)
  finally show ?thesis using fs(1) q by blast
qed


lemma cache_write_one:
  assumes "cache_write c p xs = Inr c'" "b < length xs" "length (xs ! b) = 1"
  shows "c' ! b = (c ! b)[p := xs ! b ! 0]"
proof (rule nth_equalityI)
  note w = cache_write_Inr[OF assms(1)]
  have bc: "b < length c" using w(2) assms(2) by simp
  show "length (c' ! b) = length ((c ! b)[p := xs ! b ! 0])" using w(3) bc by simp
  fix j assume "j < length (c' ! b)"
  then have j: "j < length (c ! b)" using w(3) bc by simp
  have "c' ! b ! j = (if b < length xs \<and> p \<le> j \<and> j < p + length (xs ! b)
                         then xs ! b ! (j - p) else c ! b ! j)"
    using w(4) bc j by blast
  also have "\<dots> = (if j = p then xs ! b ! 0 else c ! b ! j)"
    using assms(2,3) by auto
  also have "\<dots> = (c ! b)[p := xs ! b ! 0] ! j" using j by (simp add: nth_list_update)
  finally show "c' ! b ! j = (c ! b)[p := xs ! b ! 0] ! j" .
qed

lemma broadcast_one_row:
  assumes "broadcast_to 1 (take 1 (drop p table)) = Inr fs"
  shows "p < length table" "fs ! 0 = table ! p"
proof -
  have l: "length (take 1 (drop p table)) = 1" and fs: "fs = take 1 (drop p table)"
    using assms by (auto simp: broadcast_to_def split: if_splits)
  show p: "p < length table" using l by (cases "p < length table") simp_all
  show "fs ! 0 = table ! p" using p by (simp add: fs)
qed

lemma SelfAttention_forward_single:
  assumes call: "SelfAttention_forward sa x p (take 1 (drop p table)) = Inr (out, sa')"
    and one: "\<forall>b < length x. length (x ! b) = 1"
    and b: "b < length x"
  shows "\<exists>q k. query_at sa table (x ! b ! 0) p = Inr q
           \<and> key_at sa table (x ! b ! 0) p = Inr k
           \<and> cache_k sa' ! b = (cache_k sa ! b)[p := k]
           \<and> cache_v sa' ! b = (cache_v sa ! b)[p := value_at sa (x ! b ! 0)]
           \<and> out ! b ! 0
               = attention_output sa q (take (Suc p) ((cache_k sa ! b)[p := k]))
                   (take (Suc p) ((cache_v sa ! b)[p := value_at sa (x ! b ! 0)]))"
proof -
  let ?fc = "take 1 (drop p table)"
  let ?kx = "map (map (view_heads (nat (sa_n_kv_heads sa)) (nat (sa_head_dim sa))))
                        (map (map (Linear (wk sa))) x)"
  let ?vx = "map (map (view_heads (nat (sa_n_kv_heads sa)) (nat (sa_head_dim sa))))
                        (map (map (Linear (wv sa))) x)"
  have lb: "length (x ! b) = 1" using one b by simp
  have s0: "0 < length (x ! b)" using lb by simp
  have sh: "shape1 x = 1"
  proof -
    from b obtain r rs where x: "x = r # rs" by (cases x) auto
    have "0 < length x" using x by simp
    with one have "length (x ! 0) = 1" by blast
    then show ?thesis by (simp add: x shape1_def)
  qed
  from SelfAttention_forward_Inr[OF call] obtain xk where
      rk: "rotary_embeddings ?kx ?fc = Inr xk"
      and ck: "cache_write (cache_k sa) p xk = Inr (cache_k sa')"
      and cv: "cache_write (cache_v sa) p ?vx = Inr (cache_v sa')"
    by blast
  from SelfAttention_forward_output[OF call b s0] obtain fs q where
      fs: "broadcast_to (length (x ! b)) ?fc = Inr fs"
      and q: "mapM (\<lambda>h. rotate h (fs ! 0))
                (view_heads (nat (sa_n_heads_q sa)) (nat (sa_head_dim sa))
                   (Linear (wq sa) (x ! b ! 0))) = Inr q"
      and o: "out ! b ! 0 = attention_output sa q
                              (take (p + shape1 x) (cache_k sa' ! b))
                              (take (p + shape1 x) (cache_v sa' ! b))"
    by blast
  have fs1: "broadcast_to 1 ?fc = Inr fs" using fs by (simp only: lb)
  note row = broadcast_one_row[OF fs1]
  have q': "query_at sa table (x ! b ! 0) p = Inr q"
    using q by (simp only: query_at_def row(2))
  note re = rotary_embeddings_Inr[OF rk]
  have bk: "b < length ?kx" "length (?kx ! b) = 1"
       "?kx ! b ! 0 = view_heads (nat (sa_n_kv_heads sa)) (nat (sa_head_dim sa))
                        (Linear (wk sa) (x ! b ! 0))"
    using b lb by simp_all
  have "\<exists>fs. broadcast_to (length (?kx ! b)) ?fc = Inr fs
            \<and> length (xk ! b) = length (?kx ! b)
            \<and> (\<forall>s < length (?kx ! b). mapM (\<lambda>v. rotate v (fs ! s)) (?kx ! b ! s) = Inr (xk ! b ! s))"
    using re(2) bk(1) by blast
  then obtain fs' where fk: "broadcast_to 1 ?fc = Inr fs'" "length (xk ! b) = 1"
      "\<forall>s < (1::nat). mapM (\<lambda>v. rotate v (fs' ! s)) (?kx ! b ! s) = Inr (xk ! b ! s)"
    unfolding bk(2) by blast
  have "fs' = fs" using fk(1) fs1 by simp
  then have "mapM (\<lambda>v. rotate v (table ! p)) (?kx ! b ! 0) = Inr (xk ! b ! 0)"
    using fk(3) row(2) by simp
  then have k': "key_at sa table (x ! b ! 0) p = Inr (xk ! b ! 0)"
    by (simp only: key_at_def bk(3))
  have bxk: "b < length xk" using re(1) b by simp
  have ckb: "cache_k sa' ! b = (cache_k sa ! b)[p := xk ! b ! 0]"
    by (rule cache_write_one[OF ck bxk fk(2)])
  have bv: "b < length ?vx" "length (?vx ! b) = 1" "?vx ! b ! 0 = value_at sa (x ! b ! 0)"
    using b lb by (simp_all add: value_at_def)
  have cvb: "cache_v sa' ! b = (cache_v sa ! b)[p := value_at sa (x ! b ! 0)]"
    using cache_write_one[OF cv bv(1,2)] by (simp only: bv(3))
  have o': "out ! b ! 0
               = attention_output sa q (take (Suc p) ((cache_k sa ! b)[p := xk ! b ! 0]))
                   (take (Suc p) ((cache_v sa ! b)[p := value_at sa (x ! b ! 0)]))"
    using o by (simp only: sh ckb cvb) simp
  from q' k' ckb cvb o' show ?thesis by blast
qed

lemma full_pass_attention_cached:
  assumes q: "query_at sa table (xs ! p) p = Inr q"
    and k: "key_at sa table (xs ! p) p = Inr k"
    and cap: "p < length ck" "p < length cv"
    and held: "\<forall>i < p. key_at sa table (xs ! i) i = Inr (ck ! i) \<and> cv ! i = value_at sa (xs ! i)"
  shows "full_pass_attention sa table xs p
           = Inr (attention_output sa q (take (Suc p) (ck[p := k]))
                    (take (Suc p) (cv[p := value_at sa (xs ! p)])))"
proof -
  have ks: "mapM (\<lambda>i. key_at sa table (xs ! i) i) [0..<Suc p] = Inr (take (Suc p) (ck[p := k]))"
    unfolding mapM_Inr_iff
  proof (intro conjI allI impI)
    show "length (take (Suc p) (ck[p := k])) = length [0..<Suc p]" using cap(1) by simp
    fix i assume "i < length [0..<Suc p]"
    then have i: "i < Suc p" by simp
    show "key_at sa table (xs ! ([0..<Suc p] ! i)) ([0..<Suc p] ! i)
            = Inr (take (Suc p) (ck[p := k]) ! i)"
    proof (cases "i = p")
      case True
      then show ?thesis using k cap(1) i by (simp del: upt_Suc)
    next
      case False
      then have "i < p" using i by simp
      then show ?thesis using held i by (simp del: upt_Suc)
    qed
  qed
  have vs: "map (\<lambda>i. value_at sa (xs ! i)) [0..<Suc p]
              = take (Suc p) (cv[p := value_at sa (xs ! p)])"
  proof (rule nth_equalityI)
    show "length (map (\<lambda>i. value_at sa (xs ! i)) [0..<Suc p])
            = length (take (Suc p) (cv[p := value_at sa (xs ! p)]))"
      using cap(2) by simp
    fix i assume "i < length (map (\<lambda>i. value_at sa (xs ! i)) [0..<Suc p])"
    then have i: "i < Suc p" by simp
    show "map (\<lambda>i. value_at sa (xs ! i)) [0..<Suc p] ! i
            = take (Suc p) (cv[p := value_at sa (xs ! p)]) ! i"
    proof (cases "i = p")
      case True
      then show ?thesis using cap(2) i by (simp del: upt_Suc)
    next
      case False
      then have "i < p" using i by simp
      then show ?thesis using held i by (simp del: upt_Suc)
    qed
  qed
  show ?thesis by (simp only: full_pass_attention_def q ks vs err_bind_Inr)
qed

subsection \<open>Calls of the attention layer that averages the values\<close>

lemma mean_rows:
  "take (Suc 0) (theta_pos_freq 2 6 10000) = [[polar 1 0]]"
  "theta_pos_freq 2 6 10000 ! 0 = [polar 1 0]"
  by (simp_all add: tiny_table)

lemma mean_call_0:
  "SelfAttention_forward (mean_attention zero_cache zero_cache) [[[0, 1]]] 0
       (take 1 (drop 0 (theta_pos_freq 2 6 10000)))
     = Inr ([[[2, 4]]],
            mean_attention [[[[0, 1]], [[0, 0]], [[0, 0]]]]
                           [[[[2, 4]], [[0, 0]], [[0, 0]]]])"
  by (simp add: mean_rows tiny_rows SelfAttention_forward_def mean_attention_def zero_cache_def
      shape1_def Linear_def dot_def view_heads_def rotary_embeddings_def broadcast_to_def
      tiny_rotate cache_write_def repeat_kv_def attention_row_def attend_def softmax_def Let_def)

lemma mean_call_1:
  "SelfAttention_forward (mean_attention [[[[0, 1]], [[0, 0]], [[0, 0]]]]
                                         [[[[2, 4]], [[0, 0]], [[0, 0]]]]) [[[1, 0]]] 1
       (take 1 (drop 1 (theta_pos_freq 2 6 10000)))
     = Inr ([[[3 / 2, 7 / 2]]],
            mean_attention [[[[0, 1]], [[cos 1, sin 1]], [[0, 0]]]]
                           [[[[2, 4]], [[1, 3]], [[0, 0]]]])"
  by (simp add: mean_rows tiny_rows SelfAttention_forward_def mean_attention_def zero_cache_def
      shape1_def Linear_def dot_def view_heads_def rotary_embeddings_def broadcast_to_def
      tiny_rotate cache_write_def repeat_kv_def attention_row_def attend_def softmax_def Let_def)

lemma mean_loop_call_1:
  "SelfAttention_forward (mean_attention zero_cache zero_cache) [[[0, 1]]] 1
       (take 1 (drop 1 (theta_pos_freq 2 6 10000)))
     = Inr ([[[1, 2]]],
            mean_attention [[[[0, 0]], [[- sin 1, cos 1]], [[0, 0]]]]
                           [[[[0, 0]], [[2, 4]], [[0, 0]]]])"
  by (simp add: mean_rows tiny_rows SelfAttention_forward_def mean_attention_def zero_cache_def
      shape1_def Linear_def dot_def view_heads_def rotary_embeddings_def broadcast_to_def
      tiny_rotate cache_write_def repeat_kv_def attention_row_def attend_def softmax_def Let_def)

lemma mean_parts:
  "key_at (mean_attention ck cv) (theta_pos_freq 2 6 10000) [0, 1] 0 = Inr [[0, 1]]"
  "query_at (mean_attention ck cv) (theta_pos_freq 2 6 10000) [0, 1] 0 = Inr [[0, 0]]"
  "value_at (mean_attention ck cv) [0, 1] = [[2, 4]]"
  by (simp_all add: key_at_def query_at_def value_at_def mean_attention_def mean_rows
      Linear_def dot_def view_heads_def tiny_rotate)

lemma mean_full_pass_0:
  "full_pass_attention (mean_attention zero_cache zero_cache) (theta_pos_freq 2 6 10000) [[0, 1]] 0
     = Inr [2, 4]"
  by (simp add: full_pass_attention_def mean_parts)
     (simp add: attention_output_def mean_attention_def repeat_kv_def attention_row_def
        attend_def softmax_def Linear_def dot_def)

lemma tiny_priming_call:
  "Transformer_forward (tiny_model zero_cache zero_cache) [[1, 0]] 0
     = Inl (AssertionError ''Only one token at a time can be processed'')"
  by (simp add: Transformer_forward_def shape1_def)

section \<open>The attention output of a call and the full pass\<close>




section \<open>\<^verbatim>\<open>Transformer.forward\<close> takes one token at a time\<close>

lemma Transformer_forward_assert:
  "shape1 toks \<noteq> 1 \<Longrightarrow>
     Transformer_forward m toks start_pos
       = Inl (AssertionError ''Only one token at a time can be processed'')"
  by (simp add: Transformer_forward_def)

text \<open>
  C2 (as stated, refuted). A priming call, the three tokens of a prompt at
  \<open>start_pos = 0\<close>, is not accepted: it raises the assertion.
\<close>

theorem Transformer_forward_priming_counterexample:
  "Transformer_forward chain_model [[1, 3, 2]] 0
     = Inl (AssertionError ''Only one token at a time can be processed'')"
  by (simp add: Transformer_forward_assert shape1_def)

text \<open>
  C2 (amended). \<^verbatim>\<open>Transformer.forward\<close> raises the assertion
  \<^verbatim>\<open>Only one token at a time can be processed\<close> for every call whose sequence length is
  not 1, at every start position, \<open>start_pos = 0\<close> included: no call processes a whole
  prompt, and every call that returns has processed sequences of length exactly 1.
\<close>

theorem Transformer_forward_one_token:
  "(shape1 toks \<noteq> 1 \<longrightarrow>
      Transformer_forward m toks start_pos
        = Inl (AssertionError ''Only one token at a time can be processed''))
   \<and> (Transformer_forward m toks start_pos = Inr r \<longrightarrow> shape1 toks = 1)"
proof (intro conjI impI)
  assume "shape1 toks \<noteq> 1"
  then show "Transformer_forward m toks start_pos
        = Inl (AssertionError ''Only one token at a time can be processed'')"
    by (rule Transformer_forward_assert)
next
  assume r: "Transformer_forward m toks start_pos = Inr r"
  show "shape1 toks = 1"
  proof (rule ccontr)
    assume "shape1 toks \<noteq> 1"
    from Transformer_forward_assert[OF this, of m start_pos] r show False by simp
  qed
qed

theorem Transformer_forward_one_token_witness:
  "shape1 [[1, 3 :: int], [3, 2]] \<noteq> 1
   \<and> Transformer_forward chain_model [[1, 3], [3, 2]] 0
       = Inl (AssertionError ''Only one token at a time can be processed'')
   \<and> Transformer_forward chain_model [[1, 3], [3, 2]] 5
       = Inl (AssertionError ''Only one token at a time can be processed'')
   \<and> Transformer_forward chain_model [[1]] 0 = Inr ([[[0, 0, 0, 1]]], chain_model)
   \<and> shape1 [[1 :: int]] = 1"
proof -
  have s: "shape1 [[1, 3 :: int], [3, 2]] \<noteq> 1" by (simp add: shape1_def)
  note a = Transformer_forward_one_token[of "[[1, 3], [3, 2]]" chain_model 0, THEN conjunct1]
  note b = Transformer_forward_one_token[of "[[1, 3], [3, 2]]" chain_model 5, THEN conjunct1]
  note c = Transformer_forward_one_token[of "[[1]]" chain_model 0 "([[[0, 0, 0, 1]]], chain_model)",
      THEN conjunct2]
  have f: "Transformer_forward chain_model [[1]] 0 = Inr ([[[0, 0, 0, 1]]], chain_model)"
    by (rule chain_forward)
  from a b c s f show ?thesis by simp
qed

section \<open>The decoding loop writes the cache positions from 1 on\<close>




section \<open>Construction checks the vocabulary size and no divisibility\<close>

lemma new_weight_ok: "0 \<le> rows \<Longrightarrow> 0 \<le> cols \<Longrightarrow> \<exists>w. new_weight rnd k rows cols = Inr w"
  by (simp add: new_weight_def)

lemma zeros_ok: "0 \<le> a \<Longrightarrow> 0 \<le> b \<Longrightarrow> 0 \<le> c \<Longrightarrow> 0 \<le> d \<Longrightarrow> \<exists>z. zeros a b c d = Inr z"
  by (simp add: zeros_def)

lemma py_int_nonneg: "0 \<le> r \<Longrightarrow> 0 \<le> py_int r"
  by (simp add: py_int_def)

lemma SelfAttention_init_ok:
  assumes "sizes_ok a"
  shows "\<exists>sa. SelfAttention_init a rnd k = Inr sa
           \<and> sa_head_dim sa = dim a div n_heads a
           \<and> sa_n_rep sa = n_heads a div (case n_kv_heads a of None \<Rightarrow> n_heads a | Some v \<Rightarrow> v)"
proof -
  let ?kv = "case n_kv_heads a of None \<Rightarrow> n_heads a | Some v \<Rightarrow> v"
  let ?hd = "dim a div n_heads a"
  have kv: "0 < ?kv" using assms by (auto simp: sizes_ok_def split: option.splits)
  have hd: "0 \<le> ?hd" using assms by (simp add: sizes_ok_def pos_imp_zdiv_nonneg_iff)
  have nh: "0 < n_heads a" "0 \<le> dim a" "0 \<le> max_batch_size a" "0 \<le> max_seq_len a"
    using assms by (simp_all add: sizes_ok_def)
  have d1: "py_floordiv (n_heads a) ?kv = Inr (n_heads a div ?kv)"
    using kv by (simp add: py_floordiv_def)
  have d2: "py_floordiv (dim a) (n_heads a) = Inr ?hd"
    using nh by (simp add: py_floordiv_def)
  have q: "0 \<le> n_heads a * ?hd" "0 \<le> ?kv * ?hd" using nh hd kv by simp_all
  obtain wq' where 1: "new_weight rnd k (n_heads a * ?hd) (dim a) = Inr wq'"
    using new_weight_ok[OF q(1) nh(2)] by blast
  obtain wk' where 2: "new_weight rnd (k + 1) (?kv * ?hd) (dim a) = Inr wk'"
    using new_weight_ok[OF q(2) nh(2)] by blast
  obtain wv' where 3: "new_weight rnd (k + 2) (?kv * ?hd) (dim a) = Inr wv'"
    using new_weight_ok[OF q(2) nh(2)] by blast
  obtain wo' where 4: "new_weight rnd (k + 3) (dim a) (n_heads a * ?hd) = Inr wo'"
    using new_weight_ok[OF nh(2) q(1)] by blast
  obtain z where 5: "zeros (max_batch_size a) (max_seq_len a) ?kv ?hd = Inr z"
    using zeros_ok[OF nh(3,4) _ hd, of ?kv] kv by auto
  have "SelfAttention_init a rnd k =
      Inr \<lparr>sa_n_kv_heads = ?kv, sa_n_heads_q = n_heads a, sa_n_rep = n_heads a div ?kv,
           sa_head_dim = ?hd, wq = wq', wk = wk', wv = wv', wo = wo',
           cache_k = z, cache_v = z\<rparr>"
    by (simp only: SelfAttention_init_def Let_def d1 d2 1 2 3 4 5 err_bind_Inr)
  then show ?thesis by simp
qed

lemma FeedForward_init_ok:
  assumes "sizes_ok a"
  shows "\<exists>ff. FeedForward_init a rnd k = Inr ff"
proof -
  let ?h1 = "py_int (real_of_int (2 * (4 * dim a)) / 3)"
  let ?h2 = "case ffn_dim_multiplier a of None \<Rightarrow> ?h1 | Some m \<Rightarrow> py_int (m * real_of_int ?h1)"
  have d: "0 \<le> dim a" "0 < multiple_of a" using assms by (simp_all add: sizes_ok_def)
  have h1: "0 \<le> ?h1" using d by (intro py_int_nonneg) simp
  have h2: "0 \<le> ?h2"
    using assms h1 by (auto simp: sizes_ok_def intro!: py_int_nonneg split: option.splits)
  let ?q = "(?h2 + multiple_of a - 1) div multiple_of a"
  have fd: "py_floordiv (?h2 + multiple_of a - 1) (multiple_of a) = Inr ?q"
    using d by (simp add: py_floordiv_def)
  have "0 \<le> ?q" using h2 d by (simp add: pos_imp_zdiv_nonneg_iff)
  then have hid: "0 \<le> multiple_of a * ?q" using d by simp
  obtain w1' where 1: "new_weight rnd k (multiple_of a * ?q) (dim a) = Inr w1'"
    using new_weight_ok[OF hid d(1)] by blast
  obtain w2' where 2: "new_weight rnd (k + 1) (dim a) (multiple_of a * ?q) = Inr w2'"
    using new_weight_ok[OF d(1) hid] by blast
  obtain w3' where 3: "new_weight rnd (k + 2) (multiple_of a * ?q) (dim a) = Inr w3'"
    using new_weight_ok[OF hid d(1)] by blast
  have "FeedForward_init a rnd k = Inr \<lparr>w1 = w1', w2 = w2', w3 = w3'\<rparr>"
    by (simp only: FeedForward_init_def Let_def fd 1 2 3 err_bind_Inr)
  then show ?thesis by simp
qed

lemma EncoderBlock_init_ok:
  assumes "sizes_ok a"
  shows "\<exists>eb. EncoderBlock_init a rnd k = Inr eb
           \<and> sa_head_dim (attention eb) = dim a div n_heads a
           \<and> sa_n_rep (attention eb)
               = n_heads a div (case n_kv_heads a of None \<Rightarrow> n_heads a | Some v \<Rightarrow> v)"
proof -
  obtain sa where sa: "SelfAttention_init a rnd k = Inr sa"
      "sa_head_dim sa = dim a div n_heads a"
      "sa_n_rep sa = n_heads a div (case n_kv_heads a of None \<Rightarrow> n_heads a | Some v \<Rightarrow> v)"
    using SelfAttention_init_ok[OF assms] by blast
  obtain ff where ff: "FeedForward_init a rnd (k + 4) = Inr ff"
    using FeedForward_init_ok[OF assms] by blast
  have d: "0 \<le> dim a" "n_heads a \<noteq> 0" using assms by (simp_all add: sizes_ok_def)
  then show ?thesis
    by (simp add: EncoderBlock_init_def py_floordiv_def sa ff RMSNorm_init_def)
qed

lemma Transformer_init_ok:
  assumes "sizes_ok a"
  shows "\<exists>m. Transformer_init a rnd = Inr m
           \<and> length (layers m) = nat (n_layers a)
           \<and> (\<forall>l \<in> set (layers m).
                 sa_head_dim (attention l) = dim a div n_heads a
               \<and> sa_n_rep (attention l)
                   = n_heads a div (case n_kv_heads a of None \<Rightarrow> n_heads a | Some v \<Rightarrow> v))"
proof -
  let ?P = "\<lambda>(i::nat) eb. sa_head_dim (attention eb) = dim a div n_heads a
               \<and> sa_n_rep (attention eb)
                   = n_heads a div (case n_kv_heads a of None \<Rightarrow> n_heads a | Some v \<Rightarrow> v)"
  have v: "0 \<le> vocab_size a" "0 \<le> dim a" "0 < n_heads a" "0 \<le> max_seq_len a"
    using assms by (simp_all add: sizes_ok_def)
  obtain emb where emb: "new_weight rnd 0 (vocab_size a) (dim a) = Inr emb"
    using new_weight_ok[OF v(1,2)] by blast
  obtain outw where outw: "new_weight rnd 1 (vocab_size a) (dim a) = Inr outw"
    using new_weight_ok[OF v(1,2)] by blast
  have "\<forall>i < length [0..<nat (n_layers a)].
          \<exists>eb. EncoderBlock_init a rnd (2 + 7 * ([0..<nat (n_layers a)] ! i)) = Inr eb \<and> ?P i eb"
    using EncoderBlock_init_ok[OF assms] by simp
  from mapM_ex[OF this] obtain ls where ls:
    "mapM (\<lambda>layer_id. EncoderBlock_init a rnd (2 + 7 * layer_id)) [0..<nat (n_layers a)] = Inr ls"
    "length ls = nat (n_layers a)" "\<forall>i < nat (n_layers a). ?P i (ls ! i)"
    by auto
  have hd: "0 \<le> dim a div n_heads a" using v by (simp add: pos_imp_zdiv_nonneg_iff)
  have voc: "(vocab_size a = - 1) = False" using v(1) by simp
  have r: "RMSNorm_init (dim a) (norm_eps a)
             = Inr \<lparr>eps = norm_eps a, weight = replicate (nat (dim a)) 1\<rparr>"
    using v by (simp add: RMSNorm_init_def)
  have fd: "py_floordiv (dim a) (n_heads a) = Inr (dim a div n_heads a)"
    using v by (simp add: py_floordiv_def)
  have cnd: "(dim a div n_heads a < 0 \<or> max_seq_len a * 2 < 0) = False"
    using hd v by simp
  have "Transformer_init a rnd =
      Inr \<lparr>args = a, tf_vocab_size = vocab_size a, tf_n_layers = n_layers a,
           tok_embeddings = emb, layers = ls,
           final_norm = \<lparr>eps = norm_eps a, weight = replicate (nat (dim a)) 1\<rparr>,
           output_w = outw,
           freqs_complex = theta_pos_freq (nat (dim a div n_heads a)) (nat (max_seq_len a * 2)) 10000\<rparr>"
    by (simp only: Transformer_init_def voc if_False emb ls(1) r outw fd cnd err_bind_Inr)
  moreover have "\<forall>l \<in> set ls. ?P 0 l"
    using ls(2,3) by (auto simp: in_set_conv_nth)
  ultimately show ?thesis using ls(2) by auto
qed

lemma sizes_ok_args_indivisible: "sizes_ok args_indivisible"
  by (simp add: sizes_ok_def args_indivisible_def)

text \<open>
  C4 (as stated, refuted). The configuration \<open>args_indivisible\<close> has a set vocabulary size,
  \<open>dim mod n_heads \<noteq> 0\<close> and \<open>n_heads mod n_kv_heads \<noteq> 0\<close>, and its construction
  succeeds (its result is not an error).
\<close>

theorem Transformer_init_indivisible_counterexample:
  "dim args_indivisible mod n_heads args_indivisible \<noteq> 0
   \<and> n_heads args_indivisible mod the (n_kv_heads args_indivisible) \<noteq> 0
   \<and> \<not> isl (Transformer_init args_indivisible zero_weights)"
proof -
  have "\<exists>m. Transformer_init args_indivisible zero_weights = Inr m"
    using Transformer_init_ok[OF sizes_ok_args_indivisible] by blast
  then have "\<not> isl (Transformer_init args_indivisible zero_weights)" by auto
  then show ?thesis by (simp add: args_indivisible_def)
qed

text \<open>
  C4 (amended). Construction fails with the assertion \<^verbatim>\<open>Vocab size must be set\<close> for every
  configuration whose vocabulary size is unset (\<open>-1\<close>). It checks no divisibility: for
  every configuration whose sizes can be allocated (\<open>sizes_ok\<close>), construction succeeds,
  with \<open>n_layers\<close> layers whose \<open>head_dim\<close> is the floor quotient \<open>dim div n_heads\<close> and
  whose \<open>n_rep\<close> is the floor quotient \<open>n_heads div n_kv_heads\<close>.
\<close>

theorem Transformer_init_outcome:
  "(vocab_size a = - 1 \<longrightarrow>
      Transformer_init a rnd = Inl (AssertionError ''Vocab size must be set''))
   \<and> (sizes_ok a \<longrightarrow>
        (\<exists>m. Transformer_init a rnd = Inr m
           \<and> length (layers m) = nat (n_layers a)
           \<and> (\<forall>l \<in> set (layers m).
                 sa_head_dim (attention l) = dim a div n_heads a
               \<and> sa_n_rep (attention l)
                   = n_heads a div (case n_kv_heads a of None \<Rightarrow> n_heads a | Some v \<Rightarrow> v))))"
  using Transformer_init_ok[of a rnd] by (simp add: Transformer_init_def)

theorem Transformer_init_outcome_witness:
  "Transformer_init (args_indivisible\<lparr>vocab_size := - 1\<rparr>) zero_weights
      = Inl (AssertionError ''Vocab size must be set'')
   \<and> sizes_ok args_indivisible
   \<and> (\<exists>m. Transformer_init args_indivisible zero_weights = Inr m
          \<and> length (layers m) = 1
          \<and> sa_head_dim (attention (layers m ! 0)) = 3
          \<and> sa_n_rep (attention (layers m ! 0)) = 1)"
proof -
  note t1 = Transformer_init_outcome[of "args_indivisible\<lparr>vocab_size := - 1\<rparr>" zero_weights]
  note t2 = Transformer_init_outcome[of args_indivisible zero_weights]
  from t2 sizes_ok_args_indivisible obtain m where m:
    "Transformer_init args_indivisible zero_weights = Inr m"
    "length (layers m) = nat (n_layers args_indivisible)"
    "\<forall>l \<in> set (layers m). sa_head_dim (attention l) = dim args_indivisible div n_heads args_indivisible
        \<and> sa_n_rep (attention l) = n_heads args_indivisible div
             (case n_kv_heads args_indivisible of None \<Rightarrow> n_heads args_indivisible | Some v \<Rightarrow> v)"
    by blast
  have l1: "length (layers m) = 1" using m(2) by (simp add: args_indivisible_def)
  then have "layers m ! 0 \<in> set (layers m)" by simp
  with m(3) have "sa_head_dim (attention (layers m ! 0)) = 3 \<and> sa_n_rep (attention (layers m ! 0)) = 1"
    by (simp add: args_indivisible_def)
  with t1 m(1) l1 sizes_ok_args_indivisible show ?thesis by auto
qed

section \<open>Prompt positions are kept\<close>

text \<open>
  C5. The prompts reach the grid as \<^verbatim>\<open>self.tokenizer.encode\<close> returns them, and \<^verbatim>\<open>encode\<close>
  of a \<^verbatim>\<open>SentencePieceProcessor\<close> never returns the pad id (\<^verbatim>\<open>pad_id()\<close> is \<open>-1\<close> or the id
  of a control piece): no token of a prompt is the pad id. Then for every temperature,
  nucleus threshold and \<open>max_gen_len\<close>, a call of \<^verbatim>\<open>text_completion\<close> that returns gives one
  sequence for each prompt, every position of a returned sequence that is a position of
  its prompt holds the token of the prompt, and in the token grid at the end of the loop
  every row agrees with its prompt on all the positions that both have (a row is
  shorter than its prompt only when it is empty): only pad and generated positions were
  overwritten.
\<close>

theorem text_completion_keeps_prompt:
  assumes "\<forall>t \<in> set prompt_tokens. pad_id (tokenizer self) \<notin> set t"
    and "text_completion self prompt_tokens temperature top_p max_gen_len rng
           = Inr (out_tokens, self')"
  shows "length out_tokens = length prompt_tokens
       \<and> (\<forall>i < length prompt_tokens. \<forall>j < length (out_tokens ! i).
             j < length (prompt_tokens ! i) \<longrightarrow> out_tokens ! i ! j = prompt_tokens ! i ! j)
       \<and> (\<exists>st. generation self prompt_tokens temperature top_p max_gen_len rng = Inr st
              \<and> (\<forall>i < length prompt_tokens.
                    take (length (prompt_tokens ! i)) (tokens st ! i)
                      = take (length (tokens st ! i)) (prompt_tokens ! i)))"
proof -
  from assms(2) obtain st where st:
      "generation self prompt_tokens temperature top_p max_gen_len rng = Inr st"
      "out_tokens = map (cut_eos (eos_id (tokenizer self))) (tokens st)"
    by (auto simp: text_completion_def err_bind_eq_Inr)
  note k = generation_keeps_prompt[OF assms(1) st(1)]
  have len: "length out_tokens = length prompt_tokens" using k(1) st(2) by simp
  have "out_tokens ! i ! j = prompt_tokens ! i ! j"
    if "i < length prompt_tokens" "j < length (out_tokens ! i)" "j < length (prompt_tokens ! i)"
    for i j
  proof -
    have o: "out_tokens ! i = cut_eos (eos_id (tokenizer self)) (tokens st ! i)"
      using that(1) k(1) st(2) by simp
    have "j < length (cut_eos (eos_id (tokenizer self)) (tokens st ! i))"
      using that(2) by (simp only: o)
    with cut_eos_prefix(1)[of "eos_id (tokenizer self)" "tokens st ! i"]
    have jr: "j < length (tokens st ! i)" by linarith
    have "out_tokens ! i ! j = tokens st ! i ! j"
      using that(2) cut_eos_prefix(2) o by simp
    also have "\<dots> = take (length (prompt_tokens ! i)) (tokens st ! i) ! j"
      using that(3) by simp
    also have "\<dots> = take (length (tokens st ! i)) (prompt_tokens ! i) ! j"
      using k(2) that(1) by simp
    also have "\<dots> = prompt_tokens ! i ! j" using jr by simp
    finally show ?thesis .
  qed
  with len st(1) k(2) show ?thesis by blast
qed

theorem text_completion_keeps_prompt_witness:
  "- 1 \<notin> set [1, 3 :: int]
   \<and> text_completion (chain_llama MethodAttr (- 1)) [[1, 3]] 0 (9 / 10) (Some 3) no_draws
       = Inr ([[1, 3, 2, 3, 2]], chain_llama MethodAttr (- 1))
   \<and> length [[1, 3, 2, 3, 2 :: int]] = length [[1, 3 :: int]]
   \<and> [[1, 3, 2, 3, 2 :: int]] ! 0 ! 0 = [[1, 3]] ! 0 ! 0
   \<and> [[1, 3, 2, 3, 2 :: int]] ! 0 ! 1 = [[1, 3]] ! 0 ! 1
   \<and> text_completion (chain_llama MethodAttr (- 1)) [[1]] 0 (9 / 10) (Some (- 1)) no_draws
       = Inr ([[]], chain_llama MethodAttr (- 1))
   \<and> length [[] :: int list] = length [[1 :: int]]"
proof -
  have h: "\<forall>t \<in> set [[1, 3]]. pad_id (tokenizer (chain_llama MethodAttr (- 1))) \<notin> set t"
    by (simp add: chain_llama_def)
  note r = chain_run_eos_method[of "9 / 10" no_draws]
  have h': "\<forall>t \<in> set [[1]]. pad_id (tokenizer (chain_llama MethodAttr (- 1))) \<notin> set t"
    by (simp add: chain_llama_def)
  note r' = chain_run_empty_grid[of "9 / 10" no_draws]
  from text_completion_keeps_prompt[OF h r] text_completion_keeps_prompt[OF h' r'] r r'
  show ?thesis by simp
qed

section \<open>A prompt position is a position whose token is not the pad id\<close>

text \<open>
  C6. The mask of \<^verbatim>\<open>text_completion\<close> marks a position of the grid as prompt exactly when
  its token is not the pad id: a position of a prompt is marked exactly when the prompt's
  token there is not the pad id. An iteration keeps the rows whose position \<open>cur_pos\<close>
  is marked and writes the sampled token into the position \<open>cur_pos\<close> of the others;
  so a prompt token equal to the pad id is overwritten, as in the run on the prompt
  \<open>[1, 0, 3]\<close> with pad id 0, which returns \<open>[1, 3, 3]\<close>. When no prompt token is the
  pad id, every row of the grid agrees with its prompt at the end of the loop, on all the
  positions that both have (every row starts with its prompt, but for the empty rows
  of a grid of length 0).
\<close>

theorem prompt_mask_is_not_pad:
  "(\<forall>i < length prompt_tokens. \<forall>j < n. length (prompt_tokens ! i) \<le> n \<longrightarrow>
       prompt_mask pad (token_grid pad n prompt_tokens) ! i ! j
         = (j < length (prompt_tokens ! i) \<and> prompt_tokens ! i ! j \<noteq> pad))
   \<and> (decode_step tk temperature top_p rng pmask cur_pos st = Inr st' \<longrightarrow>
        (\<exists>logits model' next_token.
            Transformer_forward (gs_model st)
              (map (\<lambda>row. take 1 (drop (cur_pos - 1) row)) (tokens st)) cur_pos
              = Inr (logits, model')
          \<and> sample_next temperature top_p rng cur_pos logits = Inr next_token
          \<and> (\<forall>b < length (tokens st).
                (pmask ! b ! cur_pos \<longrightarrow> tokens st' ! b = tokens st ! b)
              \<and> (\<not> pmask ! b ! cur_pos \<longrightarrow> cur_pos < length (tokens st ! b) \<longrightarrow>
                    tokens st' ! b ! cur_pos = next_token ! b))))
   \<and> text_completion (chain_llama (IntAttr 2) 0) [[1, 0, 3]] 0 (9 / 10) (Some 0) no_draws
        = Inr ([[1, 3, 3]], chain_llama (IntAttr 2) 0)
   \<and> ((\<forall>t \<in> set prompt_tokens. pad_id (tokenizer self) \<notin> set t)
        \<and> generation self prompt_tokens temperature top_p max_gen_len rng = Inr gst \<longrightarrow>
        (\<forall>i < length prompt_tokens.
            take (length (prompt_tokens ! i)) (tokens gst ! i)
              = take (length (tokens gst ! i)) (prompt_tokens ! i)))"
proof -
  have a: "prompt_mask pad (token_grid pad n prompt_tokens) ! i ! j
         = (j < length (prompt_tokens ! i) \<and> prompt_tokens ! i ! j \<noteq> pad)"
    if "i < length prompt_tokens" "j < n" "length (prompt_tokens ! i) \<le> n" for i j
  proof -
    note g = token_grid_nth[OF that(1,3), where pad = pad]
    have "prompt_mask pad (token_grid pad n prompt_tokens) ! i ! j
            = (token_grid pad n prompt_tokens ! i ! j \<noteq> pad)"
      using that g(1) by (simp add: prompt_mask_nth)
    then show ?thesis using g(3)[of j] g(4)[of j] that(2)
      by (cases "j < length (prompt_tokens ! i)") simp_all
  qed
  have b: "\<exists>logits model' next_token.
            Transformer_forward (gs_model st)
              (map (\<lambda>row. take 1 (drop (cur_pos - 1) row)) (tokens st)) cur_pos
              = Inr (logits, model')
          \<and> sample_next temperature top_p rng cur_pos logits = Inr next_token
          \<and> (\<forall>b < length (tokens st).
                (pmask ! b ! cur_pos \<longrightarrow> tokens st' ! b = tokens st ! b)
              \<and> (\<not> pmask ! b ! cur_pos \<longrightarrow> cur_pos < length (tokens st ! b) \<longrightarrow>
                    tokens st' ! b ! cur_pos = next_token ! b))"
    if s: "decode_step tk temperature top_p rng pmask cur_pos st = Inr st'"
  proof -
    from decode_step_Inr[OF s] obtain logits model' next_token where d:
      "Transformer_forward (gs_model st)
              (map (\<lambda>row. take 1 (drop (cur_pos - 1) row)) (tokens st)) cur_pos
              = Inr (logits, model')"
      "sample_next temperature top_p rng cur_pos logits = Inr next_token"
      "\<forall>b < length (tokens st).
               tokens st' ! b = (tokens st ! b)[cur_pos :=
                                  (if pmask ! b ! cur_pos then tokens st ! b ! cur_pos
                                   else next_token ! b)]"
      by auto
    have "\<forall>b < length (tokens st).
                (pmask ! b ! cur_pos \<longrightarrow> tokens st' ! b = tokens st ! b)
              \<and> (\<not> pmask ! b ! cur_pos \<longrightarrow> cur_pos < length (tokens st ! b) \<longrightarrow>
                    tokens st' ! b ! cur_pos = next_token ! b)"
      using d(3) by simp
    with d(1,2) show ?thesis by blast
  qed
  have c: "text_completion (chain_llama (IntAttr 2) 0) [[1, 0, 3]] 0 (9 / 10) (Some 0) no_draws
        = Inr ([[1, 3, 3]], chain_llama (IntAttr 2) 0)"
    by (rule chain_run_pad_in_prompt)
  have d: "\<forall>i < length prompt_tokens.
            take (length (prompt_tokens ! i)) (tokens gst ! i)
              = take (length (tokens gst ! i)) (prompt_tokens ! i)"
    if "\<forall>t \<in> set prompt_tokens. pad_id (tokenizer self) \<notin> set t"
       "generation self prompt_tokens temperature top_p max_gen_len rng = Inr gst"
    using generation_keeps_prompt(2)[OF that] .
  from a b c d show ?thesis by blast
qed


theorem prompt_mask_is_not_pad_witness:
  "prompt_mask 0 (token_grid 0 3 [[1, 0, 3]]) ! 0 ! 0 = True
   \<and> prompt_mask 0 (token_grid 0 3 [[1, 0, 3]]) ! 0 ! 1 = False
   \<and> decode_step \<lparr>pad_id = 0, eos_id = IntAttr 2\<rparr> 0 (9 / 10) no_draws [[True, False, True]] 1
        \<lparr>tokens = [[1, 0, 3]], eos_reached = [False], gs_model = chain_model, gs_cur_pos = 0\<rparr>
       = Inr \<lparr>tokens = [[1, 3, 3]], eos_reached = [False], gs_model = chain_model,
              gs_cur_pos = 1\<rparr>
   \<and> sample_next 0 (9 / 10) no_draws 1 [[[0, 0, 0, 1]]] = Inr [3]
   \<and> - 1 \<notin> set [1, 3 :: int]
   \<and> generation (chain_llama MethodAttr (- 1)) [[1, 3]] 0 (9 / 10) (Some 3) no_draws
       = Inr \<lparr>tokens = [[1, 3, 2, 3, 2]], eos_reached = [False], gs_model = chain_model,
              gs_cur_pos = 4\<rparr>
   \<and> take (length [1, 3 :: int]) [1, 3, 2, 3, 2 :: int] = [1, 3]"
proof -
  note t1 = prompt_mask_is_not_pad[where prompt_tokens = "[[1, 0, 3]]" and n = 3 and pad = 0]
  from t1[THEN conjunct1] have m: "\<forall>j < 3. prompt_mask 0 (token_grid 0 3 [[1, 0, 3]]) ! 0 ! j
         = (j < length ([[1, 0, 3 :: int]] ! 0) \<and> [[1, 0, 3 :: int]] ! 0 ! j \<noteq> 0)"
    by simp
  have m0: "prompt_mask 0 (token_grid 0 3 [[1, 0, 3]]) ! 0 ! 0 = True" using m by simp
  have m1: "prompt_mask 0 (token_grid 0 3 [[1, 0, 3]]) ! 0 ! 1 = False"
    using m[rule_format, of 1] by simp
  have s: "decode_step \<lparr>pad_id = 0, eos_id = IntAttr 2\<rparr> 0 (9 / 10) no_draws
        [[True, False, True]] 1
        \<lparr>tokens = [[1, 0, 3]], eos_reached = [False], gs_model = chain_model, gs_cur_pos = 0\<rparr>
       = Inr \<lparr>tokens = [[1, 3, 3]], eos_reached = [False], gs_model = chain_model,
              gs_cur_pos = 1\<rparr>"
    by (simp add: chain_step Let_def)
  have g: "generation (chain_llama MethodAttr (- 1)) [[1, 3]] 0 (9 / 10) (Some 3) no_draws
       = Inr \<lparr>tokens = [[1, 3, 2, 3, 2]], eos_reached = [False], gs_model = chain_model,
              gs_cur_pos = 4\<rparr>"
    by (rule chain_generation_1_3)
  note t2 = prompt_mask_is_not_pad[where prompt_tokens = "[[1, 3]]"
      and self = "chain_llama MethodAttr (- 1)" and temperature = 0 and top_p = "9 / 10"
      and max_gen_len = "Some 3" and rng = no_draws
      and gst = "\<lparr>tokens = [[1, 3, 2, 3, 2]], eos_reached = [False], gs_model = chain_model,
              gs_cur_pos = 4\<rparr>"]
  have h: "\<forall>t \<in> set [[1, 3]]. pad_id (tokenizer (chain_llama MethodAttr (- 1))) \<notin> set t"
    by (simp add: chain_llama_def)
  from t2[THEN conjunct2, THEN conjunct2, THEN conjunct2] h g have k: "take (length [1, 3 :: int]) [1, 3, 2, 3, 2 :: int] = [1, 3]"
    by simp
  have n: "sample_next 0 (9 / 10) no_draws 1 [[[0, 0, 0, 1]]] = Inr [3]"
    by (rule chain_sample)
  from m0 m1 s g k n show ?thesis by simp
qed

section \<open>Nucleus truncation keeps the most probable token\<close>

lemma cumsum_from_length [simp]: "length (cumsum_from acc xs) = length xs"
  by (induction xs arbitrary: acc) simp_all

lemma cumsum_from_nth:
  "j < length xs \<Longrightarrow> cumsum_from acc xs ! j = acc + sum_list (take (Suc j) xs)"
proof (induction xs arbitrary: acc j)
  case Nil
  then show ?case by simp
next
  case (Cons x xs)
  then show ?case by (cases j) simp_all
qed

lemma truncated_length [simp]: "length (truncated xs p) = length xs"
  by (simp add: truncated_def cumsum_def)

lemma truncated_nth:
  assumes "j < length xs"
  shows "truncated xs p ! j = (if p < sum_list (take j xs) then 0 else xs ! j)"
proof -
  have "cumsum xs ! j - xs ! j = sum_list (take j xs)"
    using assms by (simp add: cumsum_def cumsum_from_nth take_Suc_conv_app_nth)
  then show ?thesis
    using assms by (simp add: truncated_def cumsum_def)
qed

lemma top_p_renormalize_eq:
  "top_p_renormalize xs p = map (\<lambda>x. x / sum_list (truncated xs p)) (truncated xs p)"
  by (simp add: top_p_renormalize_def truncated_def Let_def)

lemma truncated_nonneg:
  assumes "\<forall>x\<in>set xs. 0 \<le> x"
  shows "\<forall>x\<in>set (truncated xs p). 0 \<le> x"
proof
  fix x assume "x \<in> set (truncated xs p)"
  then obtain j where j: "j < length xs" "x = truncated xs p ! j"
    by (metis in_set_conv_nth truncated_length)
  then show "0 \<le> x" using assms by (simp add: truncated_nth)
qed

lemma sum_list_ge_nth:
  assumes "\<forall>x\<in>set (ys::real list). 0 \<le> x" "j < length ys"
  shows "ys ! j \<le> sum_list ys"
  using assms by (metis member_le_sum_list nth_mem)

lemma truncated_head:
  assumes "xs \<noteq> []" "0 \<le> p"
  shows "truncated xs p ! 0 = xs ! 0"
  using assms by (simp add: truncated_nth)

lemma support_mem: "j \<in> set (support ws) \<longleftrightarrow> j < length ws \<and> 0 < ws ! j"
  by (auto simp: support_def)

lemma sum_list_map_divide:
  "sum_list (map (\<lambda>x. x / c) xs) = sum_list xs / (c::real)"
  by (induction xs) (simp_all add: add_divide_distrib)

lemma top_p_renormalize_length [simp]: "length (top_p_renormalize xs p) = length xs"
  by (simp add: top_p_renormalize_eq)

lemma top_p_renormalize_nth:
  "j < length xs \<Longrightarrow> top_p_renormalize xs p ! j = truncated xs p ! j / sum_list (truncated xs p)"
  by (simp add: top_p_renormalize_eq)

lemma top_p_keeps_first:
  assumes "xs \<noteq> []" "0 \<le> p" "\<forall>x\<in>set xs. 0 \<le> x" "0 < xs ! 0"
  shows "0 \<in> set (support (top_p_renormalize xs p))"
    and "0 < sum_list (top_p_renormalize xs p)"
    and "\<forall>x\<in>set (top_p_renormalize xs p). 0 \<le> x"
proof -
  let ?t = "truncated xs p"
  have len: "0 < length ?t" using assms(1) by simp
  have nn: "\<forall>x\<in>set ?t. 0 \<le> x" by (rule truncated_nonneg[OF assms(3)])
  have "?t ! 0 \<le> sum_list ?t" using nn len by (rule sum_list_ge_nth)
  then have pos: "0 < sum_list ?t" using truncated_head[OF assms(1,2)] assms(4) by simp
  have "top_p_renormalize xs p ! 0 = xs ! 0 / sum_list ?t"
    using len truncated_head[OF assms(1,2)] by (simp add: top_p_renormalize_eq)
  then show "0 \<in> set (support (top_p_renormalize xs p))"
    using pos assms(4) len by (simp add: support_mem top_p_renormalize_eq)
  show nn': "\<forall>x\<in>set (top_p_renormalize xs p). 0 \<le> x"
    using nn pos by (auto simp: top_p_renormalize_eq)
  have "sum_list (top_p_renormalize xs p) = sum_list ?t / sum_list ?t"
    by (simp add: top_p_renormalize_eq sum_list_map_divide)
  then show "0 < sum_list (top_p_renormalize xs p)" using pos by simp
qed

lemma distinct_set_singleton:
  assumes "distinct ys" "set ys = {a}"
  shows "ys = [a]"
proof (cases ys)
  case Nil
  then show ?thesis using assms by simp
next
  case (Cons y zs)
  then have "y = a" using assms(2) by auto
  moreover have "set zs \<subseteq> {a}" "a \<notin> set zs"
    using assms Cons \<open>y = a\<close> by auto
  then have "zs = []" by (cases zs) auto
  ultimately show ?thesis using Cons by simp
qed

lemma top_p_small:
  assumes "xs \<noteq> []" "0 \<le> p" "\<forall>x\<in>set xs. 0 \<le> x" "p < xs ! 0"
  shows "support (top_p_renormalize xs p) = [0]"
proof -
  let ?t = "truncated xs p"
  have pos0: "0 < xs ! 0" using assms by simp
  have zero: "?t ! j = 0" if "j < length xs" "0 < j" for j
  proof -
    have "take j xs = xs ! 0 # take (j - 1) (tl xs)"
      using that assms(1) by (cases xs; cases j) simp_all
    moreover have "0 \<le> sum_list (take (j - 1) (tl xs))"
      using assms(3) by (intro sum_list_nonneg) (meson in_set_takeD list.set_sel(2) assms(1))
    ultimately have "p < sum_list (take j xs)" using assms(4) by simp
    then show ?thesis using that by (simp add: truncated_nth)
  qed
  have supp: "j \<in> set (support (top_p_renormalize xs p)) \<longleftrightarrow> j = 0" for j
  proof
    assume "j \<in> set (support (top_p_renormalize xs p))"
    then have j: "j < length xs" "0 < top_p_renormalize xs p ! j"
      by (simp_all add: support_mem)
    show "j = 0"
    proof (rule ccontr)
      assume "j \<noteq> 0"
      then have "?t ! j = 0" using zero j(1) by simp
      then show False using j by (simp add: top_p_renormalize_nth)
    qed
  next
    assume "j = 0"
    then show "j \<in> set (support (top_p_renormalize xs p))"
      using top_p_keeps_first(1)[OF assms(1,2,3) pos0] by simp
  qed
  have "distinct (support (top_p_renormalize xs p))" by (simp add: support_def)
  moreover have "set (support (top_p_renormalize xs p)) = {0}" using supp by auto
  ultimately show ?thesis by (rule distinct_set_singleton)
qed


lemma sort_descending_facts:
  assumes "sort_descending probs = (vs, idx)"
  shows "length vs = length probs" and "length idx = length probs"
    and "\<forall>j < length probs. idx ! j < length probs \<and> vs ! j = probs ! (idx ! j)"
    and "\<forall>i j. i \<le> j \<and> j < length probs \<longrightarrow> vs ! j \<le> vs ! i"
    and "set vs = set probs"
proof -
  let ?zs = "zip probs [0..<length probs]"
  let ?ps = "sort_key (\<lambda>(p, i). - p) ?zs"
  have vs: "vs = map fst ?ps" and idx: "idx = map snd ?ps"
    using assms by (simp_all add: sort_descending_def Let_def)
  show lv: "length vs = length probs" and "length idx = length probs"
    by (simp_all add: vs idx)
  have mem: "\<And>q i. (q, i) \<in> set ?ps \<Longrightarrow> i < length probs \<and> q = probs ! i"
    by (auto simp: set_zip)
  show "\<forall>j < length probs. idx ! j < length probs \<and> vs ! j = probs ! (idx ! j)"
  proof (intro allI impI)
    fix j assume j: "j < length probs"
    then have "?ps ! j \<in> set ?ps" by (simp del: set_sort)
    then have "(fst (?ps ! j), snd (?ps ! j)) \<in> set ?ps" by simp
    from mem[OF this] show "idx ! j < length probs \<and> vs ! j = probs ! (idx ! j)"
      using j by (simp add: vs idx)
  qed
  have srt: "sorted (map (\<lambda>(p, i). - p) ?ps)" by (rule sorted_sort_key)
  show "\<forall>i j. i \<le> j \<and> j < length probs \<longrightarrow> vs ! j \<le> vs ! i"
  proof (intro allI impI)
    fix i j assume ij: "i \<le> j \<and> j < length probs"
    then have "map (\<lambda>(p, i). - p) ?ps ! i \<le> map (\<lambda>(p, i). - p) ?ps ! j"
      using srt by (intro sorted_nth_mono) simp_all
    then show "vs ! j \<le> vs ! i"
      using ij by (simp add: vs case_prod_beta)
  qed
  have mz: "map fst ?zs = probs" by (simp add: map_fst_zip)
  have "set vs = fst ` set ?zs" by (simp add: vs)
  also have "\<dots> = set (map fst ?zs)" by (simp only: set_map)
  finally show "set vs = set probs" by (simp only: mz)
qed

lemma sort_descending_head:
  assumes "sort_descending probs = (vs, idx)" "probs \<noteq> []"
  shows "vs ! 0 = Max (set probs)"
proof -
  note f = sort_descending_facts[OF assms(1)]
  have ne: "vs \<noteq> []" using f(1) assms(2) by auto
  have "vs ! 0 \<in> set probs" using f(5) ne by (metis length_greater_0_conv nth_mem)
  moreover have "x \<le> vs ! 0" if "x \<in> set probs" for x
  proof -
    from that obtain j where "j < length vs" "vs ! j = x"
      unfolding f(5)[symmetric] by (auto simp: in_set_conv_nth)
    then show ?thesis using f(4) f(1) by (metis le0)
  qed
  ultimately show ?thesis by (intro Max_eqI[symmetric]) simp_all
qed

text \<open>
  C7. Let \<open>probs\<close> be a probability distribution over the vocabulary (non-negative
  entries of sum 1) and \<open>0 < p\<close>. Then the set of tokens that \<^verbatim>\<open>_sample_top_p\<close> can return is
  not empty, the draw succeeds and returns one of them, and for every \<open>p\<close> below the
  highest probability (which is positive) exactly one token remains, a token of highest
  probability.
\<close>

theorem sample_top_p_nonempty:
  assumes "\<forall>x\<in>set probs. 0 \<le> x" and "sum_list probs = 1" and "0 < p"
  shows "top_p_candidates probs p \<noteq> []
       \<and> (\<exists>t \<in> set (top_p_candidates probs p). sample_top_p probs p u = Inr t)
       \<and> 0 < Max (set probs)
       \<and> (p < Max (set probs) \<longrightarrow>
            (\<exists>t < length probs. probs ! t = Max (set probs) \<and> top_p_candidates probs p = [t]))"
proof -
  obtain vs idx where sd: "sort_descending probs = (vs, idx)" by (cases "sort_descending probs")
  note f = sort_descending_facts[OF sd]
  have ne: "probs \<noteq> []" using assms(2) by auto
  then have vne: "vs \<noteq> []" using f(1) by auto
  have hd: "vs ! 0 = Max (set probs)" by (rule sort_descending_head[OF sd ne])
  have nn: "\<forall>x\<in>set vs. 0 \<le> x" using assms(1) f(5) by simp
  have maxpos: "0 < Max (set probs)"
  proof (rule ccontr)
    assume "\<not> 0 < Max (set probs)"
    then have "\<forall>x\<in>set probs. x \<le> 0" using ne by (auto simp: not_less Max_le_iff)
    then have "\<forall>x\<in>set probs. x = 0" using assms(1) by fastforce
    then have "sum_list probs = 0" by (induction probs) simp_all
    then show False using assms(2) by simp
  qed
  then have pos0: "0 < vs ! 0" using hd by simp
  let ?r = "top_p_renormalize vs p"
  have p0: "0 \<le> p" using assms(3) by simp
  note k = top_p_keeps_first[OF vne p0 nn pos0]
  have cands: "top_p_candidates probs p = map (\<lambda>j. idx ! j) (support ?r)"
    by (simp add: top_p_candidates_def sd)
  have supp_ne: "support ?r \<noteq> []" using k(1) by auto
  then have c1: "top_p_candidates probs p \<noteq> []" by (simp add: cands)
  have "\<not> list_ex (\<lambda>w. w < 0) ?r" using k(3) by (auto simp: list_ex_iff not_less)
  then have mn: "multinomial u ?r = Inr (support ?r ! (u mod length (support ?r)))"
    using k(2) by (simp add: multinomial_def)
  have "u mod length (support ?r) < length (support ?r)" using supp_ne by simp
  then have "idx ! (support ?r ! (u mod length (support ?r))) \<in> set (top_p_candidates probs p)"
    by (simp add: cands)
  moreover have "sample_top_p probs p u = Inr (idx ! (support ?r ! (u mod length (support ?r))))"
    by (simp add: sample_top_p_def sd mn err_bind_def)
  ultimately have c2: "\<exists>t \<in> set (top_p_candidates probs p). sample_top_p probs p u = Inr t"
    by blast
  have c3: "\<exists>t < length probs. probs ! t = Max (set probs) \<and> top_p_candidates probs p = [t]"
    if "p < Max (set probs)"
  proof -
    have "support ?r = [0]" using that hd by (intro top_p_small[OF vne p0 nn]) simp
    then have "top_p_candidates probs p = [idx ! 0]" by (simp add: cands)
    moreover have "idx ! 0 < length probs \<and> vs ! 0 = probs ! (idx ! 0)"
      using f(3) ne by simp
    ultimately show ?thesis using hd by auto
  qed
  show ?thesis using c1 c2 c3 maxpos by blast
qed


theorem sample_top_p_nonempty_witness:
  "sum_list [1/4, 1/2, 1/4 :: real] = 1 \<and> (0::real) < 1/10
   \<and> top_p_candidates [1/4, 1/2, 1/4] (1/10) = [1]
   \<and> sample_top_p [1/4, 1/2, 1/4] (1/10) 7 = Inr 1"
proof -
  let ?probs = "[1/4, 1/2, 1/4 :: real]"
  have mx: "Max (set ?probs) = 1/2" by simp
  have h: "\<forall>x\<in>set ?probs. 0 \<le> x" "sum_list ?probs = 1" "(0::real) < 1/10" by simp_all
  note t = sample_top_p_nonempty[OF h, of 7]
  from t mx obtain t where t1: "t < length ?probs" "?probs ! t = 1/2"
      "top_p_candidates ?probs (1/10) = [t]"
    by auto
  have "t = 1"
  proof (rule ccontr)
    assume "t \<noteq> 1"
    then have "t = 0 \<or> t = 2" using t1(1) by auto
    then show False using t1(2) by auto
  qed
  with t t1 show ?thesis by auto
qed


section \<open>The end marker is compared with the attribute \<^verbatim>\<open>eos_id\<close>\<close>

text \<open>
  C8. The claim: every returned sequence is its row of the token grid cut strictly
  before the first end marker, and decoding stops once an end marker has appeared at a
  generated position of every row. This is what the code does when
  \<^verbatim>\<open>self.tokenizer.eos_id\<close> is an integer (\<open>text_completion_eos_int\<close>, \<open>decode_loop_stop\<close>).
  With the tokenizer that \<^verbatim>\<open>build\<close> creates, \<^verbatim>\<open>eos_id\<close> is a method, which the code does not
  call: for the prompt \<open>[1, 3]\<close> and \<open>max_gen_len = 3\<close> the model emits the end marker 2
  at the generated position 2, decoding goes on to the last position, and the returned
  sequence holds the marker and the two tokens after it.
\<close>

theorem text_completion_eos_not_cut:
  "text_completion (chain_llama MethodAttr (- 1)) [[1, 3]] 0 (9 / 10) (Some 3) no_draws
     = Inr ([[1, 3, 2, 3, 2]], chain_llama MethodAttr (- 1))"
  by (rule chain_run_eos_method)

section \<open>Grouped-head expansion\<close>

lemma concat_replicate_nth:
  "h < length hs * n \<Longrightarrow> concat (map (replicate n) hs) ! h = hs ! (h div n)"
proof (induction hs arbitrary: h)
  case Nil
  then show ?case by simp
next
  case (Cons a hs)
  show ?case
  proof (cases "h < n")
    case True
    then show ?thesis by (simp add: nth_append)
  next
    case False
    then have less: "h - n < length hs * n" using Cons.prems by simp
    then have "0 < n" by (cases n) simp_all
    then have "h div n = Suc ((h - n) div n)"
      using False by (simp add: le_div_geq)
    with Cons.IH[OF less] False show ?thesis
      by (simp add: nth_append)
  qed
qed

lemma length_concat_replicate:
  "length (concat (map (replicate n) hs)) = length hs * n"
  by (induction hs) simp_all

text \<open>
  C9. For a tensor \<open>x\<close> of shape \<open>(batch, seq, H, head_dim)\<close>, \<open>H\<close> the number of key/value heads, and \<open>n_rep \<ge> 1\<close>,
  \<open>repeat_kv x n_rep\<close> has \<open>H * n_rep\<close> heads at every position, its head \<open>h\<close>
  is head \<open>h div n_rep\<close> of \<open>x\<close> for every \<open>h < H * n_rep\<close>, and
  \<open>repeat_kv x 1 = x\<close>.
\<close>

theorem repeat_kv_head:
  assumes "1 \<le> n_rep"
    and "b < length x" and "s < length (x ! b)"
    and "length (x ! b ! s) = H"
  shows "length (repeat_kv x n_rep ! b ! s) = H * n_rep
       \<and> (\<forall>h < H * n_rep. repeat_kv x n_rep ! b ! s ! h = x ! b ! s ! (h div n_rep))
       \<and> repeat_kv x 1 = x"
proof (cases "n_rep = 1")
  case True
  then show ?thesis using assms by (simp add: repeat_kv_def)
next
  case False
  then have "repeat_kv x n_rep ! b ! s = concat (map (replicate n_rep) (x ! b ! s))"
    using assms by (simp add: repeat_kv_def)
  then show ?thesis
    using assms by (simp add: concat_replicate_nth length_concat_replicate repeat_kv_def)
qed

theorem repeat_kv_head_witness:
  "length (repeat_kv [[[[1, 2], [3, 4::real]]]] 2 ! 0 ! 0) = 2 * 2
   \<and> repeat_kv [[[[1, 2], [3, 4::real]]]] 2 ! 0 ! 0 ! 3 = [3, 4]
   \<and> repeat_kv [[[[1, 2], [3, 4::real]]]] 1 = [[[[1, 2], [3, 4::real]]]]"
proof -
  let ?x = "[[[[1, 2], [3, 4::real]]]]"
  have r: "length (repeat_kv ?x 2 ! 0 ! 0) = 2 * 2
       \<and> (\<forall>h < 2 * 2. repeat_kv ?x 2 ! 0 ! 0 ! h = ?x ! 0 ! 0 ! (h div 2))
       \<and> repeat_kv ?x 1 = ?x"
    by (rule repeat_kv_head) simp_all
  then have "repeat_kv ?x 2 ! 0 ! 0 ! 3 = ?x ! 0 ! 0 ! (3 div 2)"
    by simp
  then have "repeat_kv ?x 2 ! 0 ! 0 ! 3 = [3, 4]"
    by simp
  with r show ?thesis by simp
qed

section \<open>The rotary encoding preserves the norm of every pair\<close>

lemma view_as_complex_even:
  "even (length v) \<Longrightarrow> view_as_complex v = Inr (pairs_of v)"
  by (induction v rule: view_as_complex.induct) simp_all

lemma pairs_of_length [simp]: "length (pairs_of v) = length v div 2"
  by (induction v rule: pairs_of.induct) simp_all

lemma pairs_of_nth:
  "i < length v div 2 \<Longrightarrow> pairs_of v ! i = Complex (v ! (2 * i)) (v ! (2 * i + 1))"
proof (induction v arbitrary: i rule: pairs_of.induct)
  case (1 a b xs)
  then show ?case by (cases i) simp_all
qed simp_all

lemma view_as_real_length [simp]: "length (view_as_real zs) = 2 * length zs"
  by (induction zs) (simp_all add: view_as_real_def)

lemma view_as_real_nth:
  "i < length zs \<Longrightarrow> view_as_real zs ! (2 * i) = Re (zs ! i)
                     \<and> view_as_real zs ! (2 * i + 1) = Im (zs ! i)"
proof (induction zs arbitrary: i)
  case Nil
  then show ?case by simp
next
  case (Cons z zs)
  then show ?case by (cases i) (simp_all add: view_as_real_def)
qed

lemma l2_norm_pair:
  "2 * i + 1 < length v \<Longrightarrow> l2_norm (pair v i) = sqrt ((v ! (2 * i)) ^ 2 + (v ! (2 * i + 1)) ^ 2)"
proof -
  assume a: "2 * i + 1 < length v"
  then have "drop (2 * i) v = v ! (2 * i) # v ! (2 * i + 1) # drop (2 * i + 2) v"
    by (metis Cons_nth_drop_Suc Suc_eq_plus1 add_2_eq_Suc' add_lessD1)
  then show ?thesis by (simp add: l2_norm_def pair_def numeral_2_eq_2)
qed

lemma rotate_unit:
  assumes "even (length v)" "length fr = length v div 2" "\<forall>f\<in>set fr. cmod f = 1"
  shows "\<exists>w. rotate v fr = Inr w \<and> length w = length v
           \<and> (\<forall>i < length v div 2. l2_norm (pair w i) = l2_norm (pair v i))"
proof -
  let ?w = "view_as_real (map2 (*) (pairs_of v) fr)"
  have r: "rotate v fr = Inr ?w"
    using assms(1,2) by (simp add: rotate_def view_as_complex_even broadcast_to_def)
  have len: "length ?w = length v" using assms(1,2) by simp
  have "l2_norm (pair ?w i) = l2_norm (pair v i)" if i: "i < length v div 2" for i
  proof -
    have i2: "2 * i + 1 < length v" using i assms(1) by auto
    let ?z = "pairs_of v ! i"
    have zi: "map2 (*) (pairs_of v) fr ! i = ?z * fr ! i" using i assms(2) by simp
    have "cmod (fr ! i) = 1" using assms(2,3) i by simp
    then have cm: "cmod (?z * fr ! i) = cmod ?z" by (simp add: norm_mult)
    have "l2_norm (pair ?w i) = sqrt ((Re (?z * fr ! i)) ^ 2 + (Im (?z * fr ! i)) ^ 2)"
      using i2 len i assms(2) view_as_real_nth[of i "map2 (*) (pairs_of v) fr"] zi
      by (simp add: l2_norm_pair)
    also have "\<dots> = cmod (?z * fr ! i)" by (simp add: cmod_def)
    also have "\<dots> = cmod ?z" by (rule cm)
    also have "\<dots> = sqrt ((v ! (2 * i)) ^ 2 + (v ! (2 * i + 1)) ^ 2)"
      using i by (simp add: pairs_of_nth cmod_def)
    also have "\<dots> = l2_norm (pair v i)" using i2 by (simp add: l2_norm_pair)
    finally show ?thesis .
  qed
  with r len show ?thesis by blast
qed

lemma cmod_polar_1 [simp]: "cmod (polar 1 a) = 1"
  by (simp add: polar_def cmod_def)

lemma theta_pos_freq_rows:
  "length (theta_pos_freq head_dim L theta) = L"
  "m < L \<Longrightarrow> length (theta_pos_freq head_dim L theta ! m) = (head_dim + 1) div 2"
  "m < L \<Longrightarrow> \<forall>f \<in> set (theta_pos_freq head_dim L theta ! m). cmod f = 1"
  by (auto simp: theta_pos_freq_def Let_def)


lemma shape4_nth:
  assumes "shape4 x B S H D" "b < B"
  shows "length (x ! b) = S"
    and "s < S \<Longrightarrow> length (x ! b ! s) = H"
    and "s < S \<Longrightarrow> h < H \<Longrightarrow> length (x ! b ! s ! h) = D"
  using assms by (auto simp: shape4_def list_all_length)

lemma shape4_I:
  assumes "length x = B" "\<forall>b < B. length (x ! b) = S"
    "\<forall>b < B. \<forall>s < S. length (x ! b ! s) = H"
    "\<forall>b < B. \<forall>s < S. \<forall>h < H. length (x ! b ! s ! h) = D"
  shows "shape4 x B S H D"
  using assms by (auto simp: shape4_def list_all_length)

text \<open>
  C10. Let \<open>x\<close> have shape \<open>(B, S, H, head_dim)\<close> with \<open>head_dim\<close> even, and let the rows
  \<open>m, \<dots>, m + S - 1\<close> of the table built by \<open>theta_pos_freq\<close> be passed with it, as
  \<^verbatim>\<open>Transformer.forward\<close> does for the positions \<open>m, \<dots>, m + S - 1\<close>. Then
  \<open>rotary_embeddings\<close> returns a tensor of the same shape, and in every vector of it
  every pair of consecutive components has the Euclidean norm that the pair had in \<open>x\<close>:
  each pair is multiplied, as a complex number, by an entry of the table, and the entries
  have modulus 1.
\<close>

theorem rotary_embeddings_pair_norm:
  assumes "shape4 x B S H head_dim" and "even head_dim" and "m + S \<le> L"
  shows "\<exists>out. rotary_embeddings x (take S (drop m (theta_pos_freq head_dim L theta))) = Inr out
           \<and> shape4 out B S H head_dim
           \<and> (\<forall>b < B. \<forall>s < S. \<forall>h < H. \<forall>i < head_dim div 2.
                 l2_norm (pair (out ! b ! s ! h) i) = l2_norm (pair (x ! b ! s ! h) i))"
proof -
  let ?tab = "theta_pos_freq head_dim L theta"
  let ?fc = "take S (drop m ?tab)"
  let ?Q = "\<lambda>v w. length w = head_dim
               \<and> (\<forall>i < head_dim div 2. l2_norm (pair w i) = l2_norm (pair v i))"
  have lfc: "length ?fc = S" using assms(3) by (simp add: theta_pos_freq_rows)
  have row: "?fc ! s = ?tab ! (m + s)" if "s < S" for s
    using that assms(3) by (simp add: theta_pos_freq_rows)
  have vec: "\<exists>w. rotate v (?fc ! s) = Inr w \<and> ?Q v w" if "s < S" "length v = head_dim" for s v
  proof -
    have ms: "m + s < L" using that(1) assms(3) by simp
    have "length (?fc ! s) = length v div 2"
      using row[OF that(1)] theta_pos_freq_rows(2)[OF ms] assms(2) that(2) by simp
    moreover have "\<forall>f\<in>set (?fc ! s). cmod f = 1"
      using row[OF that(1)] theta_pos_freq_rows(3)[OF ms] by simp
    ultimately show ?thesis
      using rotate_unit[of v "?fc ! s"] assms(2) that(2) by simp
  qed
  have heads: "\<exists>ws. mapM (\<lambda>v. rotate v (?fc ! s)) hs = Inr ws \<and> length ws = length hs
                 \<and> (\<forall>h < length hs. ?Q (hs ! h) (ws ! h))"
    if "s < S" "\<forall>h < length hs. length (hs ! h) = head_dim" for s hs
    using that vec by (intro mapM_ex) simp
  have rowb: "\<exists>ob. err_bind (broadcast_to (length xb) ?fc)
                      (\<lambda>fs. mapM (\<lambda>(heads, fr). mapM (\<lambda>v. rotate v fr) heads) (zip xb fs)) = Inr ob
                \<and> length ob = S
                \<and> (\<forall>s < S. length (ob ! s) = H \<and> (\<forall>h < H. ?Q (xb ! s ! h) (ob ! s ! h)))"
    if xb: "length xb = S" "\<forall>s < S. length (xb ! s) = H"
       "\<forall>s < S. \<forall>h < H. length (xb ! s ! h) = head_dim" for xb
  proof -
    have bc: "broadcast_to (length xb) ?fc = Inr ?fc" using lfc xb(1) by (simp add: broadcast_to_def)
    have "\<forall>s < length (zip xb ?fc). \<exists>ws. (\<lambda>(heads, fr). mapM (\<lambda>v. rotate v fr) heads) (zip xb ?fc ! s) = Inr ws
             \<and> (length ws = H \<and> (\<forall>h < H. ?Q (xb ! s ! h) (ws ! h)))"
    proof (intro allI impI)
      fix s assume "s < length (zip xb ?fc)"
      then have s: "s < S" using lfc xb(1) by simp
      have "\<forall>h < length (xb ! s). length (xb ! s ! h) = head_dim" using xb s by simp
      from heads[OF s this] xb(2) s lfc xb(1)
      show "\<exists>ws. (\<lambda>(heads, fr). mapM (\<lambda>v. rotate v fr) heads) (zip xb ?fc ! s) = Inr ws
             \<and> (length ws = H \<and> (\<forall>h < H. ?Q (xb ! s ! h) (ws ! h)))"
        by auto
    qed
    from mapM_ex[OF this] lfc xb(1) bc show ?thesis by auto
  qed
  have "\<forall>b < length x. \<exists>ob. (\<lambda>xb. err_bind (broadcast_to (length xb) ?fc)
                      (\<lambda>fs. mapM (\<lambda>(heads, fr). mapM (\<lambda>v. rotate v fr) heads) (zip xb fs))) (x ! b) = Inr ob
                \<and> (length ob = S
                \<and> (\<forall>s < S. length (ob ! s) = H \<and> (\<forall>h < H. ?Q (x ! b ! s ! h) (ob ! s ! h))))"
  proof (intro allI impI)
    fix b assume "b < length x"
    then have b: "b < B" using assms(1) by (simp add: shape4_def)
    show "\<exists>ob. (\<lambda>xb. err_bind (broadcast_to (length xb) ?fc)
                      (\<lambda>fs. mapM (\<lambda>(heads, fr). mapM (\<lambda>v. rotate v fr) heads) (zip xb fs))) (x ! b) = Inr ob
                \<and> (length ob = S
                \<and> (\<forall>s < S. length (ob ! s) = H \<and> (\<forall>h < H. ?Q (x ! b ! s ! h) (ob ! s ! h))))"
      using rowb[of "x ! b"] shape4_nth[OF assms(1) b] by simp
  qed
  from mapM_ex[OF this] obtain out where out:
    "rotary_embeddings x ?fc = Inr out" "length out = length x"
    "\<forall>b < length x. length (out ! b) = S
        \<and> (\<forall>s < S. length (out ! b ! s) = H \<and> (\<forall>h < H. ?Q (x ! b ! s ! h) (out ! b ! s ! h)))"
    unfolding rotary_embeddings_def by blast
  have lx: "length x = B" using assms(1) by (simp add: shape4_def)
  have "shape4 out B S H head_dim"
    using out(2,3) lx by (intro shape4_I) simp_all
  then show ?thesis using out(1,3) lx by auto
qed


theorem rotary_embeddings_pair_norm_witness:
  "shape4 [[[[3, 4 :: real]]]] 1 1 1 2 \<and> even (2 :: nat) \<and> (1 :: nat) + 1 \<le> 2
   \<and> (\<exists>out. rotary_embeddings [[[[3, 4]]]] (take 1 (drop 1 (theta_pos_freq 2 2 10000))) = Inr out
          \<and> shape4 out 1 1 1 2
          \<and> l2_norm (pair (out ! 0 ! 0 ! 0) 0) = 5)"
proof -
  have h: "shape4 [[[[3, 4 :: real]]]] 1 1 1 2" "even (2 :: nat)" "(1 :: nat) + 1 \<le> 2"
    by (simp_all add: shape4_def)
  have "sqrt ((3::real) ^ 2 + 4 ^ 2) = 5" by (rule real_sqrt_unique) simp_all
  then have n: "l2_norm (pair [3, 4] 0) = 5" by (simp add: l2_norm_def pair_def)
  from rotary_embeddings_pair_norm[OF h, of 10000] n h show ?thesis by auto
qed

end
